theory Spec2Isabelle
  imports Main "HOL-Library.AList" "HOL-Library.Word"
begin

section \<open>JavaScript values and containers used by server.js\<close>

text \<open>
  A JavaScript string is a sequence of UTF-16 code units; two strings are equal
  (\<open>===\<close>, \<open>Array.prototype.includes\<close>, \<open>Map\<close> and \<open>Set\<close> keys) exactly when the
  sequences are equal. Role names, messages and socket ids are strings.
\<close>

type_synonym js_string = "16 word list"
type_synonym socket_id = js_string

text \<open>
  A \<open>Map\<close> keeps its entries in insertion order: \<open>set\<close> on a present key replaces the
  value in place, \<open>set\<close> on an absent key appends, \<open>delete\<close> removes the entry.
  It is an association list; \<open>get\<close> of an absent key (\<open>undefined\<close>) is \<open>None\<close>.
\<close>

definition Map_has :: "('k \<times> 'v) list \<Rightarrow> 'k \<Rightarrow> bool" where
  "Map_has m k = (map_of m k \<noteq> None)"

definition Map_get :: "('k \<times> 'v) list \<Rightarrow> 'k \<Rightarrow> 'v option" where
  "Map_get m k = map_of m k"

definition Map_set :: "'k \<Rightarrow> 'v \<Rightarrow> ('k \<times> 'v) list \<Rightarrow> ('k \<times> 'v) list" where
  "Map_set k v m = AList.update k v m"

definition Map_delete :: "'k \<Rightarrow> ('k \<times> 'v) list \<Rightarrow> ('k \<times> 'v) list" where
  "Map_delete k m = AList.delete k m"

definition Map_keys :: "('k \<times> 'v) list \<Rightarrow> 'k list" where
  "Map_keys m = map fst m"

definition Map_values :: "('k \<times> 'v) list \<Rightarrow> 'v list" where
  "Map_values m = map snd m"

text \<open>A \<open>Set\<close> is the list of its members in insertion order.\<close>

definition Set_has :: "'a list \<Rightarrow> 'a \<Rightarrow> bool" where
  "Set_has xs x = (x \<in> set xs)"

definition Set_add :: "'a \<Rightarrow> 'a list \<Rightarrow> 'a list" where
  "Set_add x xs = (if x \<in> set xs then xs else xs @ [x])"

definition Set_delete :: "'a \<Rightarrow> 'a list \<Rightarrow> 'a list" where
  "Set_delete x xs = removeAll x xs"

definition Set_clear :: "'a list" where
  "Set_clear = []"

definition Array_includes :: "'a list \<Rightarrow> 'a \<Rightarrow> bool" where
  "Array_includes xs x = (x \<in> set xs)"

text \<open>
  The object literal \<open>roundPoints\<close> gets one property per assignment
  \<open>roundPoints[role] = ...\<close>: a present property is overwritten, an absent one is
  added after the others (the order of string keys that are not array indices). The keys
  are role names that passed the check against the fixed roles, none of which is an array
  index or a name that an object literal inherits.
\<close>

definition Object_set :: "js_string \<Rightarrow> 'v \<Rightarrow> (js_string \<times> 'v) list \<Rightarrow> (js_string \<times> 'v) list" where
  "Object_set k v obj = AList.update k v obj"

section \<open>Numbers: \<open>Math.random\<close>, multiplication by 6 and \<open>Math.floor\<close>\<close>

text \<open>
  A non-negative finite IEEE 754 double is \<open>m * 2 ^ e\<close> with a significand
  \<open>m < 2 ^ 53\<close> and an exponent \<open>- 1074 \<le> e\<close>; the pair \<open>(m, e)\<close> stands for it.
  \<open>Math.random()\<close> returns such a number that is at least 0 and less than 1.
\<close>

type_synonym double = "nat \<times> int"

definition is_unit_double :: "double \<Rightarrow> bool" where
  "is_unit_double x =
     (case x of (m, e) \<Rightarrow>
        m < 2 ^ 53 \<and> - 1074 \<le> e \<and> (m = 0 \<or> (e < 0 \<and> m < 2 ^ nat (- e))))"

fun bit_length :: "nat \<Rightarrow> nat" where
  "bit_length n = (if n = 0 then 0 else Suc (bit_length (n div 2)))"

declare bit_length.simps [simp del]

text \<open>\<open>n / 2 ^ s\<close> rounded to the nearest integer, a tie to the even one.\<close>

definition round_nearest_even :: "nat \<Rightarrow> nat \<Rightarrow> nat" where
  "round_nearest_even n s =
     (let q = n div 2 ^ s; r = n mod 2 ^ s; h = 2 ^ (s - 1)
      in if r < h then q else if h < r then q + 1 else if even q then q else q + 1)"

text \<open>
  The exact value \<open>n * 2 ^ e\<close> rounded to 53 significant bits, as the result of a
  floating-point operation is (round to nearest, ties to even). The products below stay
  under 6 and keep their exponent above \<open>- 1074\<close>, so neither overflow nor the coarser
  spacing of subnormal numbers comes into play.
\<close>

definition round_double :: "nat \<Rightarrow> int \<Rightarrow> double" where
  "round_double n e =
     (let b = bit_length n
      in if b \<le> 53 then (n, e)
         else (round_nearest_even n (b - 53), e + int (b - 53)))"

text \<open>\<open>x * 6\<close>\<close>

definition times_six :: "double \<Rightarrow> double" where
  "times_six x = (case x of (m, e) \<Rightarrow> round_double (m * 6) e)"

definition Math_floor :: "double \<Rightarrow> int" where
  "Math_floor x =
     (case x of (m, e) \<Rightarrow>
        if 0 \<le> e then int m * 2 ^ nat e else int m div 2 ^ nat (- e))"

text \<open>
  The source of randomness is the sequence of the values that the coming calls of
  \<open>Math.random()\<close> return; a call takes the first and leaves the rest.
\<close>

type_synonym rng = "nat \<Rightarrow> double"

definition Math_random :: "rng \<Rightarrow> double \<times> rng" where
  "Math_random g = (g 0, \<lambda>n. g (Suc n))"

text \<open>\<open>Array.from({ length: n }, f)\<close> calls \<open>f\<close> for the indices \<open>0, ..., n - 1\<close> in order.\<close>

fun Array_from :: "nat \<Rightarrow> (rng \<Rightarrow> 'a \<times> rng) \<Rightarrow> rng \<Rightarrow> 'a list \<times> rng" where
  "Array_from 0 f g = ([], g)"
| "Array_from (Suc n) f g =
     (case f g of (x, g1) \<Rightarrow>
        (case Array_from n f g1 of (xs, g2) \<Rightarrow> (x # xs, g2)))"

definition roll_die :: "rng \<Rightarrow> int \<times> rng" where
  "roll_die g = (case Math_random g of (x, g1) \<Rightarrow> (Math_floor (times_six x) + 1, g1))"

definition generateDicePoints :: "rng \<Rightarrow> int list \<times> rng" where
  "generateDicePoints g = Array_from 5 roll_die g"

section \<open>Game state\<close>

record player =
  socketId :: socket_id
  role :: js_string

record state =
  players :: "(js_string \<times> player) list"
  socketToRole :: "(socket_id \<times> js_string) list"
  readySet :: "js_string list"

definition initial_state :: state where
  "initial_state = \<lparr>players = [], socketToRole = [], readySet = []\<rparr>"

definition FIXED_ROLES :: "js_string list" where
  "FIXED_ROLES =
     [[0x5EFA, 0x5E7F], [0x5EFA, 0x56FD], [0x674E, 0x5DDD], [0x51EF, 0x5B81], [0x9E3F, 0x6653]]"

text \<open>The four message texts of the source, as UTF-16 code units.\<close>

definition msg_invalid_role :: js_string where
  "msg_invalid_role = [0x65E0, 0x6548, 0x7684, 0x89D2, 0x8272]"

definition msg_role_taken :: js_string where
  "msg_role_taken = [0x8BE5, 0x89D2, 0x8272, 0x5DF2, 0x88AB, 0x9009, 0x8D70]"

definition msg_already_selected :: js_string where
  "msg_already_selected =
     [0x4F60, 0x5DF2, 0x7ECF, 0x9009, 0x62E9, 0x8FC7, 0x89D2, 0x8272, 0xFF0C, 0x4E0D, 0x80FD,
      0x66F4, 0x6362]"

definition msg_not_owner :: js_string where
  "msg_not_owner =
     [0x4F60, 0x4E0D, 0x662F, 0x8BE5, 0x89D2, 0x8272, 0x6216, 0x89D2, 0x8272, 0x4E0D, 0x5728,
      0x7EBF]"

section \<open>Emitted events\<close>

text \<open>
  \<open>socket.emit\<close> reaches the one socket, \<open>io.emit\<close> every connected socket,
  \<open>socket.broadcast.emit\<close> every connected socket but the sender. A handler returns
  the list of what it emits, in order; the lines written with \<open>console.log\<close> are not
  part of it.
\<close>

datatype recipient = To_socket socket_id | To_all | To_all_except socket_id

datatype payload =
    roleAssigned_success js_string
  | roleAssigned_failure js_string
  | playersUpdate "js_string list"
  | startRoll "(js_string \<times> int list) list"
  | someoneReady js_string
  | errorMsg js_string

type_synonym emit = "recipient \<times> payload"

section \<open>Helper functions of the server\<close>

definition broadcastPlayers :: "state \<Rightarrow> emit list" where
  "broadcastPlayers s =
     (let playerList = map role (Map_values (players s))
      in [(To_all, playersUpdate playerList)])"

text \<open>The \<open>forEach\<close> loop of \<open>tryStartRoll\<close> that fills \<open>roundPoints\<close>.\<close>

fun forEach_role :: "js_string list \<Rightarrow> (js_string \<times> int list) list \<Rightarrow> rng \<Rightarrow>
    (js_string \<times> int list) list \<times> rng" where
  "forEach_role [] roundPoints g = (roundPoints, g)"
| "forEach_role (r # rs) roundPoints g =
     (case generateDicePoints g of (points, g1) \<Rightarrow>
        forEach_role rs (Object_set r points roundPoints) g1)"

definition allReady :: "state \<Rightarrow> bool" where
  "allReady s =
     (let onlineRoles = Map_keys (players s)
      in 0 < length onlineRoles \<and> list_all (\<lambda>r. Set_has (readySet s) r) onlineRoles)"

definition tryStartRoll :: "rng \<Rightarrow> state \<Rightarrow> emit list \<times> state \<times> rng" where
  "tryStartRoll g s =
     (let onlineRoles = Map_keys (players s)
      in if allReady s
         then (case forEach_role onlineRoles [] g of (roundPoints, g1) \<Rightarrow>
                 ([(To_all, startRoll roundPoints)], s\<lparr>readySet := Set_clear\<rparr>, g1))
         else ([], s, g))"

section \<open>The three socket handlers\<close>

text \<open>
  Each handler takes the id of its socket, the \<open>role\<close> string of the payload where the
  event has one, and the state of the three containers, and returns the emitted events and
  the new state. \<open>playerReady\<close> also passes the source of randomness on to
  \<open>tryStartRoll\<close>.
\<close>

definition selectRole :: "socket_id \<Rightarrow> js_string \<Rightarrow> state \<Rightarrow> emit list \<times> state" where
  "selectRole sid r s =
     (if \<not> Array_includes FIXED_ROLES r
      then ([(To_socket sid, roleAssigned_failure msg_invalid_role)], s)
      else if Map_has (players s) r
      then ([(To_socket sid, roleAssigned_failure msg_role_taken)], s)
      else if Map_has (socketToRole s) sid
      then ([(To_socket sid, roleAssigned_failure msg_already_selected)], s)
      else
        (let p = \<lparr>socketId = sid, role = r\<rparr>;
             s1 = s\<lparr>players := Map_set r p (players s)\<rparr>;
             s2 = s1\<lparr>socketToRole := Map_set sid r (socketToRole s1)\<rparr>
         in ((To_socket sid, roleAssigned_success r) # broadcastPlayers s2, s2)))"

definition playerReady :: "socket_id \<Rightarrow> js_string \<Rightarrow> rng \<Rightarrow> state \<Rightarrow> emit list \<times> state \<times> rng" where
  "playerReady sid r g s =
     (case Map_get (players s) r of
        None \<Rightarrow> ([(To_socket sid, errorMsg msg_not_owner)], s, g)
      | Some p \<Rightarrow>
          if socketId p \<noteq> sid
          then ([(To_socket sid, errorMsg msg_not_owner)], s, g)
          else
            (let s1 = s\<lparr>readySet := Set_add r (readySet s)\<rparr>
             in case tryStartRoll g s1 of (out, s2, g1) \<Rightarrow>
                  ((To_all_except sid, someoneReady r) # out, s2, g1)))"

text \<open>
  In \<open>if (role)\<close> the value is \<open>undefined\<close> for a socket without an entry, and the
  empty string is falsy as well.
\<close>

definition disconnect :: "socket_id \<Rightarrow> state \<Rightarrow> emit list \<times> state" where
  "disconnect sid s =
     (case Map_get (socketToRole s) sid of
        None \<Rightarrow> ([], s)
      | Some r \<Rightarrow>
          if r = [] then ([], s)
          else
            (let s1 = s\<lparr>players := Map_delete r (players s)\<rparr>;
                 s2 = s1\<lparr>socketToRole := Map_delete sid (socketToRole s1)\<rparr>;
                 s3 = (if Set_has (readySet s2) r
                       then s2\<lparr>readySet := Set_delete r (readySet s2)\<rparr> else s2)
             in (broadcastPlayers s3, s3)))"

section \<open>Event sequences\<close>

datatype event =
    SelectRole socket_id js_string
  | PlayerReady socket_id js_string
  | Disconnect socket_id

fun handle :: "event \<Rightarrow> rng \<Rightarrow> state \<Rightarrow> emit list \<times> state \<times> rng" where
  "handle (SelectRole sid r) g s = (case selectRole sid r s of (out, s1) \<Rightarrow> (out, s1, g))"
| "handle (PlayerReady sid r) g s = playerReady sid r g s"
| "handle (Disconnect sid) g s = (case disconnect sid s of (out, s1) \<Rightarrow> (out, s1, g))"

definition state_after :: "event \<Rightarrow> rng \<Rightarrow> state \<Rightarrow> state" where
  "state_after ev g s = fst (snd (handle ev g s))"

text \<open>The states the server can be in: the empty one, and those after one more event.\<close>

inductive reachable :: "state \<Rightarrow> bool" where
  reachable_init: "reachable initial_state"
| reachable_step: "reachable s \<Longrightarrow> reachable (state_after ev g s)"

fun run :: "event list \<Rightarrow> rng \<Rightarrow> state \<Rightarrow> state" where
  "run [] g s = s"
| "run (ev # evs) g s = (case handle ev g s of (out, s1, g1) \<Rightarrow> run evs g1 s1)"

section \<open>Predicates of the specification\<close>

definition is_startRoll :: "emit \<Rightarrow> bool" where
  "is_startRoll x = (case snd x of startRoll rp \<Rightarrow> True | _ \<Rightarrow> False)"

definition is_errorMsg :: "emit \<Rightarrow> bool" where
  "is_errorMsg x = (case snd x of errorMsg m \<Rightarrow> True | _ \<Rightarrow> False)"

text \<open>A round is triggered when a \<open>startRoll\<close> event is among the emitted ones.\<close>

definition round_started :: "emit list \<Rightarrow> bool" where
  "round_started out = list_ex is_startRoll out"

text \<open>
  The joint invariant: \<open>players\<close> and \<open>socketToRole\<close> are inverse to each other, and every
  ready role is online.
\<close>

definition roles_consistent :: "state \<Rightarrow> bool" where
  "roles_consistent s \<longleftrightarrow>
     (\<forall>r c. (\<exists>p. Map_get (players s) r = Some p \<and> socketId p = c)
              \<longleftrightarrow> Map_get (socketToRole s) c = Some r)
     \<and> set (readySet s) \<subseteq> set (Map_keys (players s))"

text \<open>
  Every stored player carries the role it is stored under, and every role a socket holds is
  one of the fixed roles.
\<close>

definition wf_state :: "state \<Rightarrow> bool" where
  "wf_state s \<longleftrightarrow>
     list_all (\<lambda>(r, p). role p = r) (players s)
     \<and> list_all (\<lambda>(c, r). r \<in> set FIXED_ROLES) (socketToRole s)"

text \<open>An outcome of one role: five values, each from 1 to 6.\<close>

definition valid_points :: "int list \<Rightarrow> bool" where
  "valid_points pts \<longleftrightarrow> length pts = 5 \<and> list_all (\<lambda>d. 1 \<le> d \<and> d \<le> 6) pts"

section \<open>Example values\<close>

text \<open>
  The first two fixed roles, two socket ids, and a source of randomness that always
  returns the largest double below 1, \<open>1 - 2 ^ - 53\<close>.
\<close>

definition jianguang :: js_string where
  "jianguang = [0x5EFA, 0x5E7F]"

definition jianguo :: js_string where
  "jianguo = [0x5EFA, 0x56FD]"

definition socket_a :: socket_id where
  "socket_a = [0x61]"

definition socket_b :: socket_id where
  "socket_b = [0x62]"

definition rng_top :: rng where
  "rng_top = (\<lambda>n. (2 ^ 53 - 1, - 53))"

text \<open>A source whose n-th value is \<open>(n mod 8) / 8\<close>: 0, 1/8, ..., 7/8, 0, ...\<close>

definition rng_steps :: rng where
  "rng_steps = (\<lambda>n. (n mod 8, - 3))"

text \<open>Both roles online, the first one ready.\<close>

definition two_players :: state where
  "two_players =
     \<lparr>players = [(jianguang, \<lparr>socketId = socket_a, role = jianguang\<rparr>),
                 (jianguo, \<lparr>socketId = socket_b, role = jianguo\<rparr>)],
      socketToRole = [(socket_a, jianguang), (socket_b, jianguo)],
      readySet = [jianguang]\<rparr>"

text \<open>Both roles online and ready.\<close>

definition both_ready :: state where
  "both_ready = two_players\<lparr>readySet := [jianguang, jianguo]\<rparr>"

text \<open>The state after the second socket has disconnected from \<open>two_players\<close>.\<close>

definition one_ready :: state where
  "one_ready =
     \<lparr>players = [(jianguang, \<lparr>socketId = socket_a, role = jianguang\<rparr>)],
      socketToRole = [(socket_a, jianguang)],
      readySet = [jianguang]\<rparr>"

lemmas js_defs = Map_has_def Map_get_def Map_set_def Map_delete_def Map_keys_def Map_values_def
  Set_has_def Set_add_def Set_delete_def Set_clear_def Array_includes_def Object_set_def

lemmas handler_defs = selectRole_def playerReady_def disconnect_def tryStartRoll_def allReady_def
  broadcastPlayers_def initial_state_def FIXED_ROLES_def

lemmas example_defs = jianguang_def jianguo_def socket_a_def socket_b_def

section \<open>The containers\<close>

lemma Map_has_iff: "Map_has m k \<longleftrightarrow> k \<in> fst ` set m"
  by (simp add: Map_has_def map_of_eq_None_iff)

lemma update_absent: "k \<notin> fst ` set al \<Longrightarrow> AList.update k v al = al @ [(k, v)]"
  by (induction al) auto

lemma Map_set_absent: "\<not> Map_has m k \<Longrightarrow> Map_set k v m = m @ [(k, v)]"
  by (simp add: Map_set_def Map_has_iff update_absent)

lemma set_update_subset: "set (AList.update k v al) \<subseteq> insert (k, v) (set al)"
  by (induction al) auto

lemma set_delete_subset: "set (AList.delete k al) \<subseteq> set al"
  by (auto simp: AList.delete_eq)

section \<open>What each handler returns\<close>

lemma allReady_iff:
  "allReady s \<longleftrightarrow> set (Map_keys (players s)) \<noteq> {} \<and> set (Map_keys (players s)) \<subseteq> set (readySet s)"
  by (auto simp: allReady_def Let_def Set_has_def list_all_iff)

lemma tryStartRoll_out:
  "fst (tryStartRoll g s) =
     (if allReady s then [(To_all, startRoll (fst (forEach_role (Map_keys (players s)) [] g)))] else [])"
  by (simp add: tryStartRoll_def Let_def split: prod.split)

lemma tryStartRoll_state:
  "fst (snd (tryStartRoll g s)) = (if allReady s then s\<lparr>readySet := []\<rparr> else s)"
  by (simp add: tryStartRoll_def Let_def Set_clear_def split: prod.split)

lemma tryStartRoll_not_ready: "\<not> allReady s \<Longrightarrow> tryStartRoll g s = ([], s, g)"
  by (simp add: tryStartRoll_def)

lemma round_started_tryStartRoll: "round_started (fst (tryStartRoll g s)) = allReady s"
  by (simp add: tryStartRoll_out round_started_def is_startRoll_def)

lemma playerReady_ok:
  assumes "Map_get (players s) r = Some p" "socketId p = sid"
  shows "playerReady sid r g s =
     ((To_all_except sid, someoneReady r) # fst (tryStartRoll g (s\<lparr>readySet := Set_add r (readySet s)\<rparr>)),
      snd (tryStartRoll g (s\<lparr>readySet := Set_add r (readySet s)\<rparr>)))"
  using assms by (simp add: playerReady_def Let_def split: prod.split)

lemma playerReady_fail:
  assumes "Map_get (players s) r = None \<or> (\<exists>p. Map_get (players s) r = Some p \<and> socketId p \<noteq> sid)"
  shows "playerReady sid r g s = ([(To_socket sid, errorMsg msg_not_owner)], s, g)"
  using assms by (auto simp add: playerReady_def Let_def split: prod.split)

lemma selectRole_success:
  assumes "Array_includes FIXED_ROLES r" "\<not> Map_has (players s) r" "\<not> Map_has (socketToRole s) sid"
  shows "selectRole sid r s =
     ([(To_socket sid, roleAssigned_success r),
       (To_all, playersUpdate (map role (Map_values (players s)) @ [r]))],
      s\<lparr>players := players s @ [(r, \<lparr>socketId = sid, role = r\<rparr>)],
        socketToRole := socketToRole s @ [(sid, r)]\<rparr>)"
  using assms
  by (simp add: selectRole_def Let_def Map_set_absent broadcastPlayers_def Map_values_def)

lemma selectRole_failure:
  assumes "\<not> Array_includes FIXED_ROLES r \<or> Map_has (players s) r \<or> Map_has (socketToRole s) sid"
  shows "selectRole sid r s =
     ([(To_socket sid, roleAssigned_failure
          (if \<not> Array_includes FIXED_ROLES r then msg_invalid_role
           else if Map_has (players s) r then msg_role_taken else msg_already_selected))], s)"
  using assms by (auto simp add: selectRole_def)

lemma selectRole_success_iff:
  "(To_socket sid, roleAssigned_success r) \<in> set (fst (selectRole sid r s)) \<longleftrightarrow>
     Array_includes FIXED_ROLES r \<and> \<not> Map_has (players s) r \<and> \<not> Map_has (socketToRole s) sid"
proof (cases "\<not> Array_includes FIXED_ROLES r \<or> Map_has (players s) r \<or> Map_has (socketToRole s) sid")
  case True
  then show ?thesis by (auto simp add: selectRole_failure)
next
  case False
  then have ok: "Array_includes FIXED_ROLES r" "\<not> Map_has (players s) r" "\<not> Map_has (socketToRole s) sid"
    by auto
  then show ?thesis by (simp add: selectRole_success [OF ok])
qed

lemma messages_distinct: "distinct [msg_invalid_role, msg_role_taken, msg_already_selected]"
  by (simp add: msg_invalid_role_def msg_role_taken_def msg_already_selected_def)

lemma disconnect_owner:
  assumes "Map_get (socketToRole s) sid = Some r" "r \<noteq> []"
  shows "disconnect sid s =
     ([(To_all, playersUpdate (map role (Map_values (Map_delete r (players s)))))],
      s\<lparr>players := Map_delete r (players s),
        socketToRole := Map_delete sid (socketToRole s),
        readySet := Set_delete r (readySet s)\<rparr>)"
  using assms
  by (simp add: disconnect_def Let_def broadcastPlayers_def Set_has_def Set_delete_def)

lemma disconnect_none:
  assumes "Map_get (socketToRole s) sid = None"
  shows "disconnect sid s = ([], s)"
  using assms by (simp add: disconnect_def)

lemma disconnect_cases:
  "disconnect sid s = ([], s) \<or>
   (\<exists>r. Map_get (socketToRole s) sid = Some r \<and> r \<noteq> [] \<and> disconnect sid s =
     ([(To_all, playersUpdate (map role (Map_values (Map_delete r (players s)))))],
      s\<lparr>players := Map_delete r (players s),
        socketToRole := Map_delete sid (socketToRole s),
        readySet := Set_delete r (readySet s)\<rparr>))"
proof (cases "Map_get (socketToRole s) sid")
  case None
  then show ?thesis by (simp add: disconnect_none)
next
  case (Some r)
  show ?thesis
  proof (cases "r = []")
    case True
    with Some show ?thesis by (simp add: disconnect_def)
  next
    case False
    with Some show ?thesis by (simp add: disconnect_owner)
  qed
qed

lemma state_after_simps:
  "state_after (SelectRole sid r) g s = snd (selectRole sid r s)"
  "state_after (PlayerReady sid r) g s = fst (snd (playerReady sid r g s))"
  "state_after (Disconnect sid) g s = snd (disconnect sid s)"
  by (simp_all add: state_after_def split: prod.split)

lemma reachable_run: "reachable s \<Longrightarrow> reachable (run evs g s)"
proof (induction evs arbitrary: g s)
  case Nil
  then show ?case by simp
next
  case (Cons ev evs)
  obtain out s1 g1 where h: "handle ev g s = (out, s1, g1)" by (cases "handle ev g s") auto
  then have "s1 = state_after ev g s" by (simp add: state_after_def)
  with Cons.prems have "reachable s1" by (simp add: reachable_step)
  then have "reachable (run evs g1 s1)" by (rule Cons.IH)
  with h show ?case by simp
qed

section \<open>Invariants of the reachable states\<close>

text \<open>
  Two maps that are inverse to each other stay so when a fresh pair is added to both, and
  when a pair is removed from both.
\<close>

lemma inverse_upd:
  assumes "\<forall>r c. (\<exists>p. P r = Some p \<and> f p = c) \<longleftrightarrow> Q c = Some r"
    and "P r0 = None" and "Q c0 = None" and "f p0 = c0"
  shows "\<forall>r c. (\<exists>p. (P(r0 \<mapsto> p0)) r = Some p \<and> f p = c) \<longleftrightarrow> (Q(c0 \<mapsto> r0)) c = Some r"
proof (intro allI)
  fix r c
  show "(\<exists>p. (P(r0 \<mapsto> p0)) r = Some p \<and> f p = c) \<longleftrightarrow> (Q(c0 \<mapsto> r0)) c = Some r"
  proof (cases "r = r0")
    case True
    have "Q c \<noteq> Some r0" using assms(1,2) by (metis option.distinct(1))
    with True assms(4) show ?thesis by auto
  next
    case False
    have "\<And>p. P r = Some p \<Longrightarrow> f p \<noteq> c0" using assms(1,3) by (metis option.distinct(1))
    with False assms(1) show ?thesis by auto
  qed
qed

lemma inverse_del:
  assumes "\<forall>r c. (\<exists>p. P r = Some p \<and> f p = c) \<longleftrightarrow> Q c = Some r"
    and "Q c0 = Some r0"
  shows "\<forall>r c. (\<exists>p. (P(r0 := None)) r = Some p \<and> f p = c) \<longleftrightarrow> (Q(c0 := None)) c = Some r"
proof (intro allI)
  fix r c
  obtain p0 where p0: "P r0 = Some p0" "f p0 = c0" using assms by blast
  show "(\<exists>p. (P(r0 := None)) r = Some p \<and> f p = c) \<longleftrightarrow> (Q(c0 := None)) c = Some r"
  proof (cases "r = r0")
    case True
    have "Q c = Some r0 \<Longrightarrow> c = c0" using assms(1) p0 by (metis option.inject)
    with True show ?thesis by auto
  next
    case False
    have "\<And>p. P r = Some p \<Longrightarrow> f p \<noteq> c0" using assms False by (metis option.inject)
    with False assms(1) show ?thesis by auto
  qed
qed

lemma roles_consistent_init: "roles_consistent initial_state"
  by (simp add: roles_consistent_def initial_state_def Map_get_def Map_keys_def)

lemma roles_consistent_selectRole:
  assumes "roles_consistent s"
  shows "roles_consistent (snd (selectRole sid r s))"
proof (cases "\<not> Array_includes FIXED_ROLES r \<or> Map_has (players s) r \<or> Map_has (socketToRole s) sid")
  case True
  then show ?thesis using assms by (simp add: selectRole_failure)
next
  case False
  then have ok: "Array_includes FIXED_ROLES r" "\<not> Map_has (players s) r" "\<not> Map_has (socketToRole s) sid"
    by auto
  have np: "map_of (players s) r = None" and nc: "map_of (socketToRole s) sid = None"
    using ok by (simp_all add: Map_has_def)
  have st: "snd (selectRole sid r s) =
      s\<lparr>players := AList.update r \<lparr>socketId = sid, role = r\<rparr> (players s),
        socketToRole := AList.update sid r (socketToRole s)\<rparr>"
    using ok by (simp add: selectRole_def Let_def Map_set_def)
  have inv: "\<forall>r' c. (\<exists>p. map_of (players s) r' = Some p \<and> socketId p = c)
                \<longleftrightarrow> map_of (socketToRole s) c = Some r'"
    using assms by (simp add: roles_consistent_def Map_get_def)
  have sub: "set (readySet s) \<subseteq> fst ` set (players s)"
    using assms by (simp add: roles_consistent_def Map_keys_def)
  have "socketId \<lparr>socketId = sid, role = r\<rparr> = sid" by simp
  from inverse_upd [OF inv np nc this] sub show ?thesis
    unfolding st roles_consistent_def Map_get_def Map_keys_def
    by (simp add: update_conv' dom_update subset_insertI2)
qed

lemma roles_consistent_disconnect:
  assumes "roles_consistent s"
  shows "roles_consistent (snd (disconnect sid s))"
proof -
  from disconnect_cases [of sid s] show ?thesis
  proof
    assume "disconnect sid s = ([], s)"
    with assms show ?thesis by simp
  next
    assume "\<exists>r. Map_get (socketToRole s) sid = Some r \<and> r \<noteq> [] \<and> disconnect sid s =
     ([(To_all, playersUpdate (map role (Map_values (Map_delete r (players s)))))],
      s\<lparr>players := Map_delete r (players s),
        socketToRole := Map_delete sid (socketToRole s),
        readySet := Set_delete r (readySet s)\<rparr>)"
    then obtain r where r: "map_of (socketToRole s) sid = Some r"
      and st: "snd (disconnect sid s) =
        s\<lparr>players := AList.delete r (players s),
          socketToRole := AList.delete sid (socketToRole s),
          readySet := removeAll r (readySet s)\<rparr>"
      by (auto simp: Map_get_def Map_delete_def Set_delete_def)
    have inv: "\<forall>r' c. (\<exists>p. map_of (players s) r' = Some p \<and> socketId p = c)
                \<longleftrightarrow> map_of (socketToRole s) c = Some r'"
      using assms by (simp add: roles_consistent_def Map_get_def)
    have sub: "set (readySet s) \<subseteq> set (map fst (players s))"
      using assms by (simp add: roles_consistent_def Map_keys_def)
    from inverse_del [OF inv r] sub show ?thesis
      unfolding st roles_consistent_def Map_get_def Map_keys_def
      by (auto simp add: delete_conv' delete_keys)
  qed
qed

lemma roles_consistent_tryStartRoll:
  assumes "roles_consistent s"
  shows "roles_consistent (fst (snd (tryStartRoll g s)))"
  using assms by (simp add: tryStartRoll_state roles_consistent_def)

lemma roles_consistent_playerReady:
  assumes "roles_consistent s"
  shows "roles_consistent (fst (snd (playerReady sid r g s)))"
proof (cases "Map_get (players s) r = None \<or> (\<exists>p. Map_get (players s) r = Some p \<and> socketId p \<noteq> sid)")
  case True
  then show ?thesis using assms by (simp add: playerReady_fail)
next
  case False
  then obtain p where p: "Map_get (players s) r = Some p" "socketId p = sid" by auto
  then have "r \<in> set (Map_keys (players s))"
    by (auto simp: Map_get_def Map_keys_def dest: map_of_SomeD intro: rev_image_eqI)
  with assms have "roles_consistent (s\<lparr>readySet := Set_add r (readySet s)\<rparr>)"
    by (simp add: roles_consistent_def Set_add_def)
  then show ?thesis
    by (simp add: playerReady_ok [OF p] roles_consistent_tryStartRoll)
qed

lemma roles_consistent_state_after:
  "roles_consistent s \<Longrightarrow> roles_consistent (state_after ev g s)"
  by (cases ev)
    (simp_all add: state_after_simps roles_consistent_selectRole roles_consistent_playerReady
      roles_consistent_disconnect)

lemma reachable_roles_consistent: "reachable s \<Longrightarrow> roles_consistent s"
  by (induction rule: reachable.induct)
    (simp_all add: roles_consistent_init roles_consistent_state_after)

lemma roles_consistent_unique_owner:
  assumes "roles_consistent s"
    and "Map_get (socketToRole s) c1 = Some r" and "Map_get (socketToRole s) c2 = Some r"
  shows "c1 = c2"
proof -
  from assms(1) have inv: "\<And>r c. (\<exists>p. Map_get (players s) r = Some p \<and> socketId p = c)
      \<longleftrightarrow> Map_get (socketToRole s) c = Some r"
    by (simp add: roles_consistent_def)
  from inv [of r c1] assms(2) obtain p1 where "Map_get (players s) r = Some p1" "socketId p1 = c1"
    by blast
  moreover from inv [of r c2] assms(3) obtain p2 where "Map_get (players s) r = Some p2" "socketId p2 = c2"
    by blast
  ultimately show ?thesis by simp
qed

lemma roles_consistent_one_role:
  assumes "roles_consistent s"
    and "Map_get (players s) r1 = Some p1" and "Map_get (players s) r2 = Some p2"
    and "socketId p1 = socketId p2"
  shows "r1 = r2"
proof -
  from assms(1) have inv: "\<And>r c. (\<exists>p. Map_get (players s) r = Some p \<and> socketId p = c)
      \<longleftrightarrow> Map_get (socketToRole s) c = Some r"
    by (simp add: roles_consistent_def)
  from inv [of r1 "socketId p1"] assms(2) have "Map_get (socketToRole s) (socketId p1) = Some r1"
    by blast
  moreover from inv [of r2 "socketId p2"] assms(3) have "Map_get (socketToRole s) (socketId p2) = Some r2"
    by blast
  ultimately show ?thesis using assms(4) by simp
qed

lemma wf_state_init: "wf_state initial_state"
  by (simp add: wf_state_def initial_state_def)

lemma wf_state_selectRole:
  assumes "wf_state s"
  shows "wf_state (snd (selectRole sid r s))"
proof (cases "\<not> Array_includes FIXED_ROLES r \<or> Map_has (players s) r \<or> Map_has (socketToRole s) sid")
  case True
  then show ?thesis using assms by (simp add: selectRole_failure)
next
  case False
  then have ok: "Array_includes FIXED_ROLES r" "\<not> Map_has (players s) r" "\<not> Map_has (socketToRole s) sid"
    by auto
  from ok(1) assms show ?thesis
    by (simp add: selectRole_success [OF ok] wf_state_def Array_includes_def)
qed

lemma wf_state_delete:
  assumes "wf_state s"
  shows "wf_state (s\<lparr>players := Map_delete r (players s),
        socketToRole := Map_delete sid (socketToRole s),
        readySet := rs\<rparr>)"
proof -
  have "set (Map_delete r (players s)) \<subseteq> set (players s)"
    and "set (Map_delete sid (socketToRole s)) \<subseteq> set (socketToRole s)"
    by (simp_all add: Map_delete_def set_delete_subset)
  with assms show ?thesis
    unfolding wf_state_def list_all_iff by auto
qed

lemma wf_state_disconnect:
  assumes "wf_state s"
  shows "wf_state (snd (disconnect sid s))"
proof -
  from disconnect_cases [of sid s] show ?thesis
  proof (elim disjE exE conjE)
    assume "disconnect sid s = ([], s)"
    with assms show ?thesis by simp
  next
    fix r
    assume "disconnect sid s =
     ([(To_all, playersUpdate (map role (Map_values (Map_delete r (players s)))))],
      s\<lparr>players := Map_delete r (players s),
        socketToRole := Map_delete sid (socketToRole s),
        readySet := Set_delete r (readySet s)\<rparr>)"
    then show ?thesis by (simp add: wf_state_delete [OF assms])
  qed
qed

lemma wf_state_playerReady:
  assumes "wf_state s"
  shows "wf_state (fst (snd (playerReady sid r g s)))"
proof (cases "Map_get (players s) r = None \<or> (\<exists>p. Map_get (players s) r = Some p \<and> socketId p \<noteq> sid)")
  case True
  then show ?thesis using assms by (simp add: playerReady_fail)
next
  case False
  then obtain p where p: "Map_get (players s) r = Some p" "socketId p = sid" by auto
  show ?thesis using assms
    by (simp add: playerReady_ok [OF p] tryStartRoll_state wf_state_def)
qed

lemma wf_state_state_after: "wf_state s \<Longrightarrow> wf_state (state_after ev g s)"
  by (cases ev)
    (simp_all add: state_after_simps wf_state_selectRole wf_state_playerReady wf_state_disconnect)

lemma reachable_wf_state: "reachable s \<Longrightarrow> wf_state s"
  by (induction rule: reachable.induct) (simp_all add: wf_state_init wf_state_state_after)

lemma wf_state_roster: "wf_state s \<Longrightarrow> map role (Map_values (players s)) = Map_keys (players s)"
  by (auto simp: wf_state_def Map_values_def Map_keys_def list_all_iff)

lemma FIXED_ROLES_nonempty: "r \<in> set FIXED_ROLES \<Longrightarrow> r \<noteq> []"
  by (auto simp: FIXED_ROLES_def)

lemma wf_state_role_nonempty:
  assumes "wf_state s" "Map_get (socketToRole s) sid = Some r"
  shows "r \<noteq> []"
proof -
  from assms(2) have "(sid, r) \<in> set (socketToRole s)"
    by (simp add: Map_get_def map_of_SomeD)
  with assms(1) have "r \<in> set FIXED_ROLES" by (auto simp: wf_state_def list_all_iff)
  then show ?thesis by (rule FIXED_ROLES_nonempty)
qed

text \<open>A socket keeps its entry in \<open>socketToRole\<close> until its own disconnect.\<close>

lemma claimed_state_after:
  assumes "Map_has (socketToRole s) sid" "ev \<noteq> Disconnect sid"
  shows "Map_has (socketToRole (state_after ev g s)) sid"
proof (cases ev)
  case (SelectRole c r)
  show ?thesis
  proof (cases "\<not> Array_includes FIXED_ROLES r \<or> Map_has (players s) r \<or> Map_has (socketToRole s) c")
    case True
    with assms SelectRole show ?thesis by (simp add: state_after_def selectRole_failure)
  next
    case False
    then have ok: "Array_includes FIXED_ROLES r" "\<not> Map_has (players s) r" "\<not> Map_has (socketToRole s) c"
      by auto
    from assms SelectRole show ?thesis
      by (auto simp add: state_after_def selectRole_success [OF ok] Map_has_iff)
  qed
next
  case (PlayerReady c r)
  show ?thesis
  proof (cases "Map_get (players s) r = None \<or> (\<exists>p. Map_get (players s) r = Some p \<and> socketId p \<noteq> c)")
    case True
    with assms PlayerReady show ?thesis by (simp add: state_after_def playerReady_fail)
  next
    case False
    then obtain p where p: "Map_get (players s) r = Some p" "socketId p = c" by auto
    from assms PlayerReady show ?thesis
      by (simp add: state_after_def playerReady_ok [OF p] tryStartRoll_state)
  qed
next
  case (Disconnect c)
  with assms have ne: "c \<noteq> sid" by simp
  from disconnect_cases [of c s] assms(1) ne Disconnect show ?thesis
    by (auto simp: state_after_def Map_has_def Map_delete_def delete_conv')
qed

lemma claimed_run:
  assumes "Map_has (socketToRole s) sid" "Disconnect sid \<notin> set evs"
  shows "Map_has (socketToRole (run evs g s)) sid"
  using assms
proof (induction evs arbitrary: g s)
  case Nil
  then show ?case by simp
next
  case (Cons ev evs)
  obtain out s1 g1 where h: "handle ev g s = (out, s1, g1)" by (cases "handle ev g s") auto
  then have s1: "s1 = state_after ev g s" by (simp add: state_after_def)
  from Cons.prems have "ev \<noteq> Disconnect sid" by auto
  with Cons.prems(1) have "Map_has (socketToRole s1) sid"
    unfolding s1 by (rule claimed_state_after)
  moreover from Cons.prems have "Disconnect sid \<notin> set evs" by simp
  ultimately have "Map_has (socketToRole (run evs g1 s1)) sid" by (rule Cons.IH)
  with h show ?case by simp
qed

section \<open>The dice\<close>

text \<open>\<open>bit_length n\<close> is the number of binary digits of \<open>n\<close>.\<close>

lemma bit_length_le_iff: "bit_length n \<le> k \<longleftrightarrow> n < 2 ^ k"
proof (induction n arbitrary: k rule: bit_length.induct)
  case (1 n)
  show ?case
  proof (cases "n = 0")
    case True
    then show ?thesis by (simp add: bit_length.simps)
  next
    case False
    show ?thesis
    proof (cases k)
      case 0
      with False show ?thesis by (simp add: bit_length.simps [of n])
    next
      case (Suc j)
      from False have "bit_length n \<le> Suc j \<longleftrightarrow> bit_length (n div 2) \<le> j"
        by (simp add: bit_length.simps [of n])
      also from False have "\<dots> \<longleftrightarrow> n div 2 < 2 ^ j" by (rule "1.IH")
      also have "\<dots> \<longleftrightarrow> n < 2 ^ Suc j" by auto
      finally show ?thesis using Suc by simp
    qed
  qed
qed

lemma round_nearest_even_le: "round_nearest_even n s \<le> n div 2 ^ s + 1"
  by (simp add: round_nearest_even_def Let_def)

text \<open>
  Rounding away at most three bits cannot reach a bound that the exact value misses by 6
  units or more: the distance is more than half a unit of the result.
\<close>

lemma round_nearest_even_less:
  assumes "n + 6 \<le> B * 2 ^ s" and "1 \<le> s" and "s \<le> 3"
  shows "round_nearest_even n s < B"
proof -
  let ?q = "n div 2 ^ s" and ?r = "n mod 2 ^ s"
  have n: "n = ?q * 2 ^ s + ?r" by (rule div_mult_mod_eq [symmetric])
  have "n < B * 2 ^ s" using assms(1) by simp
  then have qB: "?q < B" by (simp add: less_mult_imp_div_less)
  show ?thesis
  proof (cases "?q + 1 < B")
    case True
    with round_nearest_even_le [of n s] show ?thesis by simp
  next
    case False
    with qB have B: "B = ?q + 1" by simp
    from assms(1) have "n + 6 \<le> ?q * 2 ^ s + 2 ^ s"
      by (subst (asm) B) (simp add: algebra_simps)
    with n have r: "?r + 6 \<le> 2 ^ s" by linarith
    from assms(2,3) have "s = 1 \<or> s = 2 \<or> s = 3" by auto
    with r have s: "s = 3" by auto
    with r have "?r < 2 ^ (s - 1)" by simp
    then have "round_nearest_even n s = ?q" by (simp add: round_nearest_even_def Let_def)
    with qB show ?thesis by simp
  qed
qed

lemma Math_floor_neg_exp:
  "e < 0 \<Longrightarrow> Math_floor (m, e) = int (m div 2 ^ nat (- e))"
  by (simp add: Math_floor_def zdiv_int)

lemma Math_floor_nonneg: "0 \<le> Math_floor x"
  by (cases x) (simp add: Math_floor_def pos_imp_zdiv_nonneg_iff)

text \<open>
  For a double \<open>x < 1\<close> the rounded product \<open>x * 6\<close> stays below 6: the largest such
  \<open>x\<close> is \<open>1 - 2 ^ - 53\<close>, and its product rounds down.
\<close>

lemma times_six_floor_le:
  assumes "is_unit_double x"
  shows "Math_floor (times_six x) \<le> 5"
proof -
  obtain m e where x: "x = (m, e)" by (cases x)
  from assms have m53: "m < 2 ^ 53" and unit: "m = 0 \<or> (e < 0 \<and> m < 2 ^ nat (- e))"
    by (simp_all add: x is_unit_double_def)
  show ?thesis
  proof (cases "m = 0")
    case True
    then show ?thesis
      by (simp add: x times_six_def round_double_def bit_length.simps [of 0] Math_floor_def)
  next
    case False
    with unit have e: "e < 0" and mk: "m < 2 ^ nat (- e)" by auto
    define k where "k = nat (- e)"
    have ek: "e = - int k" and k0: "0 < k" using e by (simp_all add: k_def)
    have mk': "m + 1 \<le> 2 ^ k" using mk by (simp add: k_def)
    then have six: "m * 6 + 6 \<le> 6 * 2 ^ k" by simp
    show ?thesis
    proof (cases "bit_length (m * 6) \<le> 53")
      case True
      then have ts: "times_six x = (m * 6, e)"
        by (simp add: x times_six_def round_double_def)
      from six have "m * 6 < 6 * 2 ^ k" by simp
      then have "m * 6 div 2 ^ k < 6" by (rule less_mult_imp_div_less)
      with e show ?thesis by (simp add: ts Math_floor_neg_exp k_def)
    next
      case False
      define s where "s = bit_length (m * 6) - 53"
      from False have s1: "1 \<le> s" by (simp add: s_def)
      have "m * 6 < 2 ^ 56" using m53 by simp
      then have "bit_length (m * 6) \<le> 56" by (simp only: bit_length_le_iff)
      then have s3: "s \<le> 3" by (simp add: s_def)
      from False have big: "2 ^ 53 \<le> m * 6" by (simp add: bit_length_le_iff)
      have ks: "s < k"
      proof (rule ccontr)
        assume "\<not> s < k"
        with s3 have "k \<le> 3" by simp
        then have "(2::nat) ^ k \<le> 2 ^ 3" by (rule power_increasing) simp
        with six big show False by simp
      qed
      from False have ts: "times_six x = (round_nearest_even (m * 6) s, e + int s)"
        by (simp add: x times_six_def round_double_def s_def Let_def)
      have "6 * 2 ^ k = (6 * 2 ^ (k - s)) * (2::nat) ^ s"
        using ks by (simp add: power_add [symmetric])
      with six have "m * 6 + 6 \<le> (6 * 2 ^ (k - s)) * 2 ^ s" by simp
      then have "round_nearest_even (m * 6) s < 6 * 2 ^ (k - s)"
        using s1 s3 by (rule round_nearest_even_less)
      then have "round_nearest_even (m * 6) s div 2 ^ (k - s) < 6"
        by (rule less_mult_imp_div_less)
      moreover have "e + int s < 0" "nat (- (e + int s)) = k - s"
        using ks ek by simp_all
      ultimately show ?thesis by (simp add: ts Math_floor_neg_exp)
    qed
  qed
qed

lemma Array_from_roll_die:
  "Array_from n roll_die g = (map (\<lambda>i. Math_floor (times_six (g i)) + 1) [0..<n], \<lambda>i. g (i + n))"
proof (induction n arbitrary: g)
  case 0
  then show ?case by simp
next
  case (Suc n)
  have "roll_die g = (Math_floor (times_six (g 0)) + 1, \<lambda>i. g (Suc i))"
    by (simp add: roll_die_def Math_random_def)
  then show ?case
    by (simp add: Suc.IH map_upt_Suc del: upt_Suc)
qed

lemma upt_5: "[0..<5] = [0, 1, 2, 3, 4]"
  by (simp add: upt_rec)

lemma generateDicePoints_eq:
  "generateDicePoints g =
     (map (\<lambda>i. Math_floor (times_six (g i)) + 1) [0, 1, 2, 3, 4], \<lambda>i. g (i + 5))"
  by (simp add: generateDicePoints_def Array_from_roll_die upt_5 del: upt.simps)

text \<open>The call that starts at the draw \<open>5 * k\<close> uses the draws \<open>5 * k, ..., 5 * k + 4\<close>.\<close>

lemma generateDicePoints_shift:
  "fst (generateDicePoints (\<lambda>n. g (n + 5 * k)))
     = map (\<lambda>i. Math_floor (times_six (g (5 * k + i))) + 1) [0, 1, 2, 3, 4]"
  by (simp add: generateDicePoints_eq ac_simps)

lemma generateDicePoints_valid:
  assumes "\<forall>n. is_unit_double (g n)"
  shows "valid_points (fst (generateDicePoints g))"
  using assms Math_floor_nonneg times_six_floor_le
  by (simp add: generateDicePoints_eq valid_points_def add_increasing2)

section \<open>The round points\<close>

lemma forEach_role_keys:
  "fst ` set (fst (forEach_role rs acc g)) = fst ` set acc \<union> set rs"
  by (induction rs arbitrary: acc g) (auto simp: Object_set_def dom_update split: prod.splits)

lemma forEach_role_distinct:
  "distinct (map fst acc) \<Longrightarrow> distinct (map fst (fst (forEach_role rs acc g)))"
  by (induction rs arbitrary: acc g) (auto simp: Object_set_def distinct_update split: prod.splits)

lemma forEach_role_keys_list:
  "distinct rs \<Longrightarrow> set rs \<inter> fst ` set acc = {} \<Longrightarrow>
   map fst (fst (forEach_role rs acc g)) = map fst acc @ rs"
proof (induction rs arbitrary: acc g)
  case Nil
  then show ?case by simp
next
  case (Cons r rs)
  obtain pts g1 where h: "generateDicePoints g = (pts, g1)" by (cases "generateDicePoints g")
  from Cons.prems have "r \<notin> fst ` set acc" by auto
  then have upd: "Object_set r pts acc = acc @ [(r, pts)]"
    by (simp add: Object_set_def update_absent)
  from Cons.prems have "distinct rs" "set rs \<inter> fst ` set (acc @ [(r, pts)]) = {}" by auto
  then have "map fst (fst (forEach_role rs (acc @ [(r, pts)]) g1)) = map fst (acc @ [(r, pts)]) @ rs"
    by (rule Cons.IH)
  with h upd show ?case by simp
qed

lemma forEach_role_valid:
  assumes "\<forall>n. is_unit_double (g n)" and "\<forall>x \<in> set acc. valid_points (snd x)"
  shows "\<forall>x \<in> set (fst (forEach_role rs acc g)). valid_points (snd x)"
  using assms
proof (induction rs arbitrary: acc g)
  case Nil
  then show ?case by simp
next
  case (Cons r rs)
  define g1 where "g1 = (\<lambda>i. g (i + 5))"
  obtain pts where gen: "generateDicePoints g = (pts, g1)"
    by (simp add: generateDicePoints_eq g1_def)
  from generateDicePoints_valid [OF Cons.prems(1)] have "valid_points pts"
    by (simp add: gen)
  with Cons.prems(2) set_update_subset [of r pts acc]
  have acc: "\<forall>x \<in> set (Object_set r pts acc). valid_points (snd x)"
    by (auto simp: Object_set_def)
  from Cons.prems(1) have "\<forall>n. is_unit_double (g1 n)" by (simp add: g1_def)
  then have "\<forall>x \<in> set (fst (forEach_role rs (Object_set r pts acc) g1)). valid_points (snd x)"
    using acc by (rule Cons.IH)
  then show ?case by (simp add: gen)
qed

text \<open>
  The loop calls \<open>generateDicePoints\<close> once per role, in the order of the roles, each
  call continuing where the one before stopped: the list stored for the k-th role is the
  output of the call that starts at the draw \<open>5 * k\<close>.
\<close>

lemma forEach_role_entries:
  "\<forall>x \<in> set (fst (forEach_role rs acc g)).
     x \<in> set acc
     \<or> (\<exists>k < length rs. rs ! k = fst x
           \<and> snd x = fst (generateDicePoints (\<lambda>n. g (n + 5 * k))))"
proof (induction rs arbitrary: acc g)
  case Nil
  then show ?case by simp
next
  case (Cons r rs)
  define g1 where "g1 = (\<lambda>n. g (n + 5))"
  obtain pts where gen: "generateDicePoints g = (pts, g1)"
    by (simp add: generateDicePoints_eq g1_def)
  have pts: "pts = fst (generateDicePoints (\<lambda>n. g (n + 5 * 0)))"
    by (simp add: gen)
  have shift: "(\<lambda>n. g1 (n + 5 * k)) = (\<lambda>n. g (n + 5 * Suc k))" for k
    by (simp add: g1_def ac_simps)
  show ?case
  proof
    fix x
    assume "x \<in> set (fst (forEach_role (r # rs) acc g))"
    then have "x \<in> set (fst (forEach_role rs (Object_set r pts acc) g1))"
      by (simp add: gen)
    with Cons.IH [of "Object_set r pts acc" g1]
    consider "x \<in> set (Object_set r pts acc)"
      | k where "k < length rs" "rs ! k = fst x"
          "snd x = fst (generateDicePoints (\<lambda>n. g1 (n + 5 * k)))"
      by blast
    then show "x \<in> set acc
     \<or> (\<exists>k < length (r # rs). (r # rs) ! k = fst x
           \<and> snd x = fst (generateDicePoints (\<lambda>n. g (n + 5 * k))))"
    proof cases
      case 1
      with set_update_subset [of r pts acc] have "x = (r, pts) \<or> x \<in> set acc"
        by (auto simp: Object_set_def)
      then show ?thesis
      proof
        assume "x = (r, pts)"
        with pts have "0 < length (r # rs) \<and> (r # rs) ! 0 = fst x
           \<and> snd x = fst (generateDicePoints (\<lambda>n. g (n + 5 * 0)))"
          by simp
        then show ?thesis by blast
      next
        assume "x \<in> set acc"
        then show ?thesis by simp
      qed
    next
      case 2
      then have "Suc k < length (r # rs) \<and> (r # rs) ! Suc k = fst x
           \<and> snd x = fst (generateDicePoints (\<lambda>n. g (n + 5 * Suc k)))"
        by (simp add: shift)
      then show ?thesis by blast
    qed
  qed
qed

lemma forEach_role_distinct_eq:
  "distinct rs \<Longrightarrow> set rs \<inter> fst ` set acc = {} \<Longrightarrow>
   fst (forEach_role rs acc g) =
     acc @ map (\<lambda>k. (rs ! k, fst (generateDicePoints (\<lambda>n. g (n + 5 * k))))) [0..<length rs]"
proof (induction rs arbitrary: acc g)
  case Nil
  then show ?case by simp
next
  case (Cons r rs)
  define g1 where "g1 = (\<lambda>n. g (n + 5))"
  obtain pts where gen: "generateDicePoints g = (pts, g1)"
    by (simp add: generateDicePoints_eq g1_def)
  have pts: "pts = fst (generateDicePoints (\<lambda>n. g (n + 5 * 0)))"
    by (simp add: gen)
  have shift: "(\<lambda>n. g1 (n + 5 * k)) = (\<lambda>n. g (n + 5 * Suc k))" for k
    by (simp add: g1_def ac_simps)
  from Cons.prems have "r \<notin> fst ` set acc" by auto
  then have upd: "Object_set r pts acc = acc @ [(r, pts)]"
    by (simp add: Object_set_def update_absent)
  from Cons.prems have "distinct rs" "set rs \<inter> fst ` set (acc @ [(r, pts)]) = {}" by auto
  then have "fst (forEach_role rs (acc @ [(r, pts)]) g1) =
     (acc @ [(r, pts)])
       @ map (\<lambda>k. (rs ! k, fst (generateDicePoints (\<lambda>n. g1 (n + 5 * k))))) [0..<length rs]"
    by (rule Cons.IH)
  then have "fst (forEach_role (r # rs) acc g) =
     acc @ (r, pts)
       # map (\<lambda>k. (rs ! k, fst (generateDicePoints (\<lambda>n. g (n + 5 * Suc k))))) [0..<length rs]"
    by (simp add: gen upd shift)
  also have "(r, pts)
       # map (\<lambda>k. (rs ! k, fst (generateDicePoints (\<lambda>n. g (n + 5 * Suc k))))) [0..<length rs]
     = map (\<lambda>k. ((r # rs) ! k, fst (generateDicePoints (\<lambda>n. g (n + 5 * k)))))
         [0..<length (r # rs)]"
    unfolding pts by (simp add: map_upt_Suc del: upt_Suc)
  finally show ?case .
qed

section \<open>The example states\<close>

lemma run_two_players:
  "run [SelectRole socket_a jianguang, SelectRole socket_b jianguo,
        PlayerReady socket_a jianguang] rng_top initial_state = two_players"
  by (simp add: js_defs handler_defs example_defs two_players_def Let_def)

lemma run_one_ready:
  "run [SelectRole socket_a jianguang, SelectRole socket_b jianguo,
        PlayerReady socket_a jianguang, Disconnect socket_b] rng_top initial_state = one_ready"
  by (simp add: js_defs handler_defs example_defs one_ready_def Let_def)

lemma reachable_two_players: "reachable two_players"
  using reachable_run [OF reachable_init, of _ rng_top] run_two_players by metis

lemma reachable_one_ready: "reachable one_ready"
  using reachable_run [OF reachable_init, of _ rng_top] run_one_ready by metis

lemma dice_rng_top: "generateDicePoints rng_top = ([6, 6, 6, 6, 6], rng_top)"
  by (simp add: generateDicePoints_eq rng_top_def times_six_def round_double_def bit_length.simps
      round_nearest_even_def Let_def Math_floor_def)

lemma unit_rng_top: "is_unit_double (rng_top n)"
  by (simp add: rng_top_def is_unit_double_def)

lemma unit_rng_steps: "is_unit_double (rng_steps n)"
proof -
  have "n mod 8 < (8::nat)" by simp
  moreover have "(8::nat) < 2 ^ 53" by simp
  ultimately have "n mod 8 < (2::nat) ^ 53" by (rule less_trans)
  then show ?thesis by (simp add: rng_steps_def is_unit_double_def)
qed

section \<open>The readiness barrier\<close>

text \<open>
  Claim C1. In every state (so in every reachable one) the barrier evaluation
  \<open>tryStartRoll\<close> broadcasts \<open>startRoll\<close> exactly when at least one role is online and
  every online role is in \<open>readySet\<close>. When it does, the broadcast is the only event and
  \<open>readySet\<close> is empty afterwards; when it does not, nothing is emitted and the state is
  unchanged. For the evaluation that a successful \<open>playerReady\<close> runs, the ready set is
  the one with the signalled role added.
\<close>

theorem barrier_fires_iff_all_online_ready:
  "(round_started (fst (tryStartRoll g s)) \<longleftrightarrow>
      set (Map_keys (players s)) \<noteq> {} \<and> set (Map_keys (players s)) \<subseteq> set (readySet s))
   \<and> (round_started (fst (tryStartRoll g s)) \<longrightarrow>
        (\<exists>rp. fst (tryStartRoll g s) = [(To_all, startRoll rp)])
        \<and> readySet (fst (snd (tryStartRoll g s))) = [])
   \<and> (\<not> round_started (fst (tryStartRoll g s)) \<longrightarrow>
        fst (tryStartRoll g s) = [] \<and> fst (snd (tryStartRoll g s)) = s)
   \<and> (\<forall>p. Map_get (players s) r = Some p \<and> socketId p = sid \<longrightarrow>
        (round_started (fst (playerReady sid r g s)) \<longleftrightarrow>
           set (Map_keys (players s)) \<noteq> {}
           \<and> set (Map_keys (players s)) \<subseteq> set (Set_add r (readySet s))))"
proof -
  have "round_started (fst (playerReady sid r g s)) \<longleftrightarrow>
           set (Map_keys (players s)) \<noteq> {}
           \<and> set (Map_keys (players s)) \<subseteq> set (Set_add r (readySet s))"
    if "Map_get (players s) r = Some p" "socketId p = sid" for p
    using round_started_tryStartRoll [of g "s\<lparr>readySet := Set_add r (readySet s)\<rparr>"]
    by (simp add: playerReady_ok [OF that] round_started_def is_startRoll_def allReady_iff)
  then show ?thesis
    unfolding round_started_tryStartRoll
    by (simp add: tryStartRoll_out tryStartRoll_state allReady_iff)
qed

theorem barrier_fires_iff_all_online_ready_witness:
  "\<not> round_started (fst (tryStartRoll rng_top two_players))
   \<and> fst (snd (tryStartRoll rng_top two_players)) = two_players
   \<and> round_started (fst (playerReady socket_b jianguo rng_top two_players))"
  using barrier_fires_iff_all_online_ready [of rng_top two_players jianguo socket_b]
  by (simp add: two_players_def js_defs example_defs)

text \<open>
  Claim C5. When the barrier fires, the single event is one \<open>startRoll\<close> broadcast to all
  sockets; the keys of its \<open>roundPoints\<close> are exactly the online roles, each of them
  once (and in the order of \<open>players\<close> when the keys of \<open>players\<close> are distinct, as
  those of a \<open>Map\<close> are), and \<open>readySet\<close> is empty afterwards.
\<close>

theorem round_covers_online_roles:
  assumes "round_started (fst (tryStartRoll g s))"
  shows "\<exists>rp. fst (tryStartRoll g s) = [(To_all, startRoll rp)]
      \<and> set (map fst rp) = set (Map_keys (players s))
      \<and> distinct (map fst rp)
      \<and> (distinct (Map_keys (players s)) \<longrightarrow> map fst rp = Map_keys (players s))
      \<and> readySet (fst (snd (tryStartRoll g s))) = []"
proof -
  from assms have ready: "allReady s" by (simp add: round_started_tryStartRoll)
  let ?rp = "fst (forEach_role (Map_keys (players s)) [] g)"
  have "fst (tryStartRoll g s) = [(To_all, startRoll ?rp)]"
    using ready by (simp add: tryStartRoll_out)
  moreover have "set (map fst ?rp) = set (Map_keys (players s))"
    using forEach_role_keys [of "Map_keys (players s)" "[]" g] by simp
  moreover have "distinct (map fst ?rp)"
    by (rule forEach_role_distinct) simp
  moreover have "map fst ?rp = Map_keys (players s)" if "distinct (Map_keys (players s))"
    using forEach_role_keys_list [OF that, of "[]" g] by simp
  moreover have "readySet (fst (snd (tryStartRoll g s))) = []"
    using ready by (simp add: tryStartRoll_state)
  ultimately show ?thesis by blast
qed

theorem round_covers_online_roles_witness:
  "round_started (fst (tryStartRoll rng_top both_ready))
   \<and> fst (tryStartRoll rng_top both_ready)
      = [(To_all, startRoll [(jianguang, [6, 6, 6, 6, 6]), (jianguo, [6, 6, 6, 6, 6])])]
   \<and> (\<exists>rp. fst (tryStartRoll rng_top both_ready) = [(To_all, startRoll rp)]
      \<and> map fst rp = Map_keys (players both_ready))
   \<and> readySet (fst (snd (tryStartRoll rng_top both_ready))) = []"
proof -
  have a: "round_started (fst (tryStartRoll rng_top both_ready))"
    by (simp add: round_started_tryStartRoll allReady_iff both_ready_def two_players_def js_defs
        example_defs)
  have b: "fst (tryStartRoll rng_top both_ready)
      = [(To_all, startRoll [(jianguang, [6, 6, 6, 6, 6]), (jianguo, [6, 6, 6, 6, 6])])]"
    by (simp add: tryStartRoll_def allReady_def both_ready_def two_players_def js_defs
        example_defs dice_rng_top)
  have c: "distinct (Map_keys (players both_ready))"
    by (simp add: both_ready_def two_players_def js_defs example_defs)
  from round_covers_online_roles [OF a] a b c show ?thesis by auto
qed

text \<open>
  Claim C10. The barrier evaluation leaves \<open>players\<close> and \<open>socketToRole\<close> as they were,
  whether it fires or not: a round start adds, removes and reassigns no role.
\<close>

theorem tryStartRoll_frame:
  "players (fst (snd (tryStartRoll g s))) = players s
   \<and> socketToRole (fst (snd (tryStartRoll g s))) = socketToRole s"
  by (simp add: tryStartRoll_state)

theorem tryStartRoll_frame_witness:
  "round_started (fst (tryStartRoll rng_top one_ready))
   \<and> players (fst (snd (tryStartRoll rng_top one_ready))) = players one_ready
   \<and> socketToRole (fst (snd (tryStartRoll rng_top one_ready))) = socketToRole one_ready"
  using tryStartRoll_frame [of rng_top one_ready]
  by (simp add: round_started_tryStartRoll allReady_iff one_ready_def js_defs)

text \<open>
  Claim C7. If every value of \<open>Math.random()\<close> is a double in the range from 0 up to,
  but not including, 1, then \<open>generateDicePoints\<close> returns five values, the i-th one
  computed from the i-th call, each at least 1 and at most 6. When a round starts,
  \<open>roundPoints\<close> holds such a list for every online role, and every list in it is,
  unchanged and in the order generated, the output of one call of \<open>generateDicePoints\<close>:
  the list of the k-th online role is computed from the draws \<open>5 * k, ..., 5 * k + 4\<close>,
  in that order. With distinct keys in \<open>players\<close> this determines \<open>roundPoints\<close>
  completely.
\<close>

theorem dice_points_valid:
  assumes "\<forall>n. is_unit_double (g n)"
  shows "fst (generateDicePoints g) = map (\<lambda>i. Math_floor (times_six (g i)) + 1) [0, 1, 2, 3, 4]
    \<and> length (fst (generateDicePoints g)) = 5
    \<and> (\<forall>d \<in> set (fst (generateDicePoints g)). 1 \<le> d \<and> d \<le> 6)
    \<and> (\<forall>rp. fst (tryStartRoll g s) = [(To_all, startRoll rp)] \<longrightarrow>
          (\<forall>r \<in> set (Map_keys (players s)). \<exists>pts. (r, pts) \<in> set rp)
          \<and> (\<forall>x \<in> set rp. valid_points (snd x))
          \<and> (\<forall>x \<in> set rp. \<exists>k < length (Map_keys (players s)).
                Map_keys (players s) ! k = fst x
                \<and> snd x = fst (generateDicePoints (\<lambda>n. g (n + 5 * k)))
                \<and> snd x = map (\<lambda>i. Math_floor (times_six (g (5 * k + i))) + 1) [0, 1, 2, 3, 4])
          \<and> (distinct (Map_keys (players s)) \<longrightarrow>
                rp = map (\<lambda>k. (Map_keys (players s) ! k,
                           map (\<lambda>i. Math_floor (times_six (g (5 * k + i))) + 1) [0, 1, 2, 3, 4]))
                       [0..<length (Map_keys (players s))]))"
proof -
  have v: "valid_points (fst (generateDicePoints g))"
    using assms by (rule generateDicePoints_valid)
  have round: "(\<forall>r \<in> set (Map_keys (players s)). \<exists>pts. (r, pts) \<in> set rp)
          \<and> (\<forall>x \<in> set rp. valid_points (snd x))
          \<and> (\<forall>x \<in> set rp. \<exists>k < length (Map_keys (players s)).
                Map_keys (players s) ! k = fst x
                \<and> snd x = fst (generateDicePoints (\<lambda>n. g (n + 5 * k)))
                \<and> snd x = map (\<lambda>i. Math_floor (times_six (g (5 * k + i))) + 1) [0, 1, 2, 3, 4])
          \<and> (distinct (Map_keys (players s)) \<longrightarrow>
                rp = map (\<lambda>k. (Map_keys (players s) ! k,
                           map (\<lambda>i. Math_floor (times_six (g (5 * k + i))) + 1) [0, 1, 2, 3, 4]))
                       [0..<length (Map_keys (players s))])"
    if out: "fst (tryStartRoll g s) = [(To_all, startRoll rp)]" for rp
  proof -
    from out have rp: "rp = fst (forEach_role (Map_keys (players s)) [] g)"
      by (simp add: tryStartRoll_out split: if_splits)
    have "fst ` set rp = set (Map_keys (players s))"
      unfolding rp using forEach_role_keys [of "Map_keys (players s)" "[]" g] by simp
    then have a: "\<forall>r \<in> set (Map_keys (players s)). \<exists>pts. (r, pts) \<in> set rp"
      by force
    have b: "\<forall>x \<in> set rp. valid_points (snd x)"
      unfolding rp using assms by (rule forEach_role_valid) simp
    have c: "\<forall>x \<in> set rp. \<exists>k < length (Map_keys (players s)).
                Map_keys (players s) ! k = fst x
                \<and> snd x = fst (generateDicePoints (\<lambda>n. g (n + 5 * k)))
                \<and> snd x = map (\<lambda>i. Math_floor (times_six (g (5 * k + i))) + 1) [0, 1, 2, 3, 4]"
      unfolding rp
      using forEach_role_entries [of "Map_keys (players s)" "[]" g]
      by (simp add: generateDicePoints_shift)
    have d: "rp = map (\<lambda>k. (Map_keys (players s) ! k,
                           map (\<lambda>i. Math_floor (times_six (g (5 * k + i))) + 1) [0, 1, 2, 3, 4]))
                       [0..<length (Map_keys (players s))]"
      if "distinct (Map_keys (players s))"
      unfolding rp
      using forEach_role_distinct_eq [OF that, of "[]" g]
      by (simp add: generateDicePoints_shift)
    from a b c d show ?thesis by blast
  qed
  have single: "fst (generateDicePoints g)
      = map (\<lambda>i. Math_floor (times_six (g i)) + 1) [0, 1, 2, 3, 4]
    \<and> length (fst (generateDicePoints g)) = 5
    \<and> (\<forall>d \<in> set (fst (generateDicePoints g)). 1 \<le> d \<and> d \<le> 6)"
    using v by (simp add: generateDicePoints_eq valid_points_def list_all_iff)
  from single round show ?thesis by blast
qed

theorem dice_points_valid_witness:
  "(\<forall>n. is_unit_double (rng_top n))
   \<and> fst (generateDicePoints rng_top) = [6, 6, 6, 6, 6]
   \<and> fst (tryStartRoll rng_top one_ready) = [(To_all, startRoll [(jianguang, [6, 6, 6, 6, 6])])]
   \<and> valid_points [6, 6, 6, 6, 6]
   \<and> (\<forall>n. is_unit_double (rng_steps n))
   \<and> fst (generateDicePoints rng_steps) = [1, 1, 2, 3, 4]
   \<and> distinct (Map_keys (players both_ready))
   \<and> fst (tryStartRoll rng_steps both_ready)
       = [(To_all, startRoll [(jianguang, [1, 1, 2, 3, 4]), (jianguo, [4, 5, 6, 1, 1])])]"
proof -
  have u: "\<forall>n. is_unit_double (rng_top n)" by (simp add: unit_rng_top)
  have out: "fst (tryStartRoll rng_top one_ready)
      = [(To_all, startRoll [(jianguang, [6, 6, 6, 6, 6])])]"
    by (simp add: tryStartRoll_def allReady_def one_ready_def js_defs dice_rng_top)
  from dice_points_valid [OF u, of one_ready]
  have pts: "fst (generateDicePoints rng_top)
      = map (\<lambda>i. Math_floor (times_six (rng_top i)) + 1) [0, 1, 2, 3, 4]"
    and rp: "\<forall>x \<in> set [(jianguang, [6, 6, 6, 6, 6])]. valid_points (snd x)"
    using out by blast+
  from pts have top: "fst (generateDicePoints rng_top) = [6, 6, 6, 6, 6]"
    by (simp add: rng_top_def times_six_def round_double_def bit_length.simps
        round_nearest_even_def Let_def Math_floor_def)
  have u': "\<forall>n. is_unit_double (rng_steps n)" by (simp add: unit_rng_steps)
  have keys: "Map_keys (players both_ready) = [jianguang, jianguo]"
    by (simp add: both_ready_def two_players_def js_defs)
  have dist: "distinct (Map_keys (players both_ready))"
    by (simp add: keys example_defs)
  have "allReady both_ready"
    by (simp add: allReady_def both_ready_def two_players_def js_defs)
  then have out': "fst (tryStartRoll rng_steps both_ready)
      = [(To_all, startRoll (fst (forEach_role (Map_keys (players both_ready)) [] rng_steps)))]"
    by (simp add: tryStartRoll_out)
  from dice_points_valid [OF u', of both_ready] out' dist
  have pts': "fst (generateDicePoints rng_steps)
      = map (\<lambda>i. Math_floor (times_six (rng_steps i)) + 1) [0, 1, 2, 3, 4]"
    and rp': "fst (forEach_role (Map_keys (players both_ready)) [] rng_steps)
      = map (\<lambda>k. (Map_keys (players both_ready) ! k,
           map (\<lambda>i. Math_floor (times_six (rng_steps (5 * k + i))) + 1) [0, 1, 2, 3, 4]))
          [0..<length (Map_keys (players both_ready))]"
    by blast+
  from pts' have steps: "fst (generateDicePoints rng_steps) = [1, 1, 2, 3, 4]"
    by (simp add: rng_steps_def times_six_def round_double_def bit_length.simps Math_floor_def)
  from rp' have "fst (forEach_role (Map_keys (players both_ready)) [] rng_steps)
      = [(jianguang, [1, 1, 2, 3, 4]), (jianguo, [4, 5, 6, 1, 1])]"
    by (simp add: keys rng_steps_def times_six_def round_double_def bit_length.simps
        Math_floor_def)
  with out' have round: "fst (tryStartRoll rng_steps both_ready)
       = [(To_all, startRoll [(jianguang, [1, 1, 2, 3, 4]), (jianguo, [4, 5, 6, 1, 1])])]"
    by simp
  from u out rp top u' steps dist round show ?thesis by simp
qed

section \<open>Claiming a role\<close>

text \<open>
  Claim C2. Every reachable state satisfies the joint invariant \<open>roles_consistent\<close>:
  a role is assigned to a socket in \<open>players\<close> exactly when the socket is mapped to that
  role in \<open>socketToRole\<close>, and every ready role is online. Each of \<open>selectRole\<close>,
  \<open>playerReady\<close>, \<open>disconnect\<close> and \<open>tryStartRoll\<close> preserves it. Under the invariant
  no two sockets hold the same role and no socket holds two roles.
\<close>

theorem role_ownership_invariant:
  "(reachable s \<longrightarrow> roles_consistent s)
   \<and> (roles_consistent s \<longrightarrow>
        roles_consistent (snd (selectRole sid r s))
        \<and> roles_consistent (fst (snd (playerReady sid r g s)))
        \<and> roles_consistent (snd (disconnect sid s))
        \<and> roles_consistent (fst (snd (tryStartRoll g s))))
   \<and> (roles_consistent s \<longrightarrow>
        (\<forall>c1 c2 r'. Map_get (socketToRole s) c1 = Some r' \<and> Map_get (socketToRole s) c2 = Some r'
           \<longrightarrow> c1 = c2)
        \<and> (\<forall>r1 r2 p1 p2. Map_get (players s) r1 = Some p1 \<and> Map_get (players s) r2 = Some p2
             \<and> socketId p1 = socketId p2 \<longrightarrow> r1 = r2))"
proof (intro conjI impI allI)
  assume "reachable s"
  then show "roles_consistent s" by (rule reachable_roles_consistent)
next
  fix c1 c2 r'
  assume "roles_consistent s"
    and "Map_get (socketToRole s) c1 = Some r' \<and> Map_get (socketToRole s) c2 = Some r'"
  then show "c1 = c2" using roles_consistent_unique_owner by blast
next
  fix r1 r2 p1 p2
  assume "roles_consistent s"
    and "Map_get (players s) r1 = Some p1 \<and> Map_get (players s) r2 = Some p2
             \<and> socketId p1 = socketId p2"
  then show "r1 = r2" using roles_consistent_one_role by blast
qed (simp_all add: roles_consistent_selectRole roles_consistent_playerReady
      roles_consistent_disconnect roles_consistent_tryStartRoll)

theorem role_ownership_invariant_witness:
  "reachable two_players \<and> roles_consistent two_players
   \<and> roles_consistent (snd (disconnect socket_b two_players))
   \<and> snd (disconnect socket_b two_players) = one_ready"
proof -
  from role_ownership_invariant [of two_players socket_b] reachable_two_players
  have "roles_consistent two_players"
    and "roles_consistent (snd (disconnect socket_b two_players))"
    by blast+
  moreover have "snd (disconnect socket_b two_players) = one_ready"
    by (simp add: two_players_def one_ready_def js_defs handler_defs example_defs Let_def)
  ultimately show ?thesis using reachable_two_players by simp
qed

text \<open>
  Claim C3. \<open>selectRole\<close> checks, in this order, that the role is one of the fixed roles,
  that it is not taken, and that the socket has no role yet. The first check that fails
  gives the only event, a failure reply to the requester with the message of that check
  (the three messages differ), and the state is unchanged. When all pass, \<open>players\<close> and
  \<open>socketToRole\<close> each get the one new entry, \<open>readySet\<close> is unchanged, the requester
  gets the success reply with the role, and the roster with the new role is broadcast to
  all sockets; in a reachable state that roster is the list of the online roles.
\<close>

theorem selectRole_checks_in_order:
  "(\<not> Array_includes FIXED_ROLES r \<longrightarrow>
      selectRole sid r s = ([(To_socket sid, roleAssigned_failure msg_invalid_role)], s))
   \<and> (Array_includes FIXED_ROLES r \<and> Map_has (players s) r \<longrightarrow>
      selectRole sid r s = ([(To_socket sid, roleAssigned_failure msg_role_taken)], s))
   \<and> (Array_includes FIXED_ROLES r \<and> \<not> Map_has (players s) r \<and> Map_has (socketToRole s) sid \<longrightarrow>
      selectRole sid r s = ([(To_socket sid, roleAssigned_failure msg_already_selected)], s))
   \<and> (Array_includes FIXED_ROLES r \<and> \<not> Map_has (players s) r \<and> \<not> Map_has (socketToRole s) sid \<longrightarrow>
      selectRole sid r s =
        ([(To_socket sid, roleAssigned_success r),
          (To_all, playersUpdate (map role (Map_values (players s)) @ [r]))],
         s\<lparr>players := players s @ [(r, \<lparr>socketId = sid, role = r\<rparr>)],
           socketToRole := socketToRole s @ [(sid, r)]\<rparr>)
      \<and> (reachable s \<longrightarrow>
           map role (Map_values (players s)) @ [r]
             = Map_keys (players (snd (selectRole sid r s)))))
   \<and> distinct [msg_invalid_role, msg_role_taken, msg_already_selected]"
proof -
  have roster: "map role (Map_values (players s)) @ [r]
      = Map_keys (players s @ [(r, \<lparr>socketId = sid, role = r\<rparr>)])" if "reachable s"
    using wf_state_roster [OF reachable_wf_state [OF that]] by (simp add: Map_keys_def)
  show ?thesis
    using roster messages_distinct
    by (simp add: selectRole_failure selectRole_success)
qed

theorem selectRole_checks_in_order_witness:
  "selectRole socket_a jianguo one_ready =
     ([(To_socket socket_a, roleAssigned_failure msg_already_selected)], one_ready)
   \<and> selectRole socket_b jianguang one_ready =
     ([(To_socket socket_b, roleAssigned_failure msg_role_taken)], one_ready)
   \<and> selectRole socket_b [] one_ready =
     ([(To_socket socket_b, roleAssigned_failure msg_invalid_role)], one_ready)
   \<and> selectRole socket_b jianguo one_ready =
     ([(To_socket socket_b, roleAssigned_success jianguo),
       (To_all, playersUpdate [jianguang, jianguo])], two_players)
   \<and> Map_keys (players (snd (selectRole socket_b jianguo one_ready))) = [jianguang, jianguo]"
proof -
  have fixed: "Array_includes FIXED_ROLES jianguo" "Array_includes FIXED_ROLES jianguang"
      "\<not> Array_includes FIXED_ROLES []"
    by (simp_all add: js_defs example_defs FIXED_ROLES_def)
  have taken: "Map_has (players one_ready) jianguang" "\<not> Map_has (players one_ready) jianguo"
    by (simp_all add: one_ready_def js_defs example_defs)
  have claimed: "Map_has (socketToRole one_ready) socket_a"
      "\<not> Map_has (socketToRole one_ready) socket_b"
    by (simp_all add: one_ready_def js_defs example_defs)
  from selectRole_checks_in_order [where r = jianguo and s = one_ready and sid = socket_a]
    fixed taken claimed
  have "selectRole socket_a jianguo one_ready =
     ([(To_socket socket_a, roleAssigned_failure msg_already_selected)], one_ready)"
    by blast
  moreover
  from selectRole_checks_in_order [where r = jianguang and s = one_ready and sid = socket_b]
    fixed taken
  have "selectRole socket_b jianguang one_ready =
     ([(To_socket socket_b, roleAssigned_failure msg_role_taken)], one_ready)"
    by blast
  moreover
  from selectRole_checks_in_order [where r = "[]" and s = one_ready and sid = socket_b] fixed
  have "selectRole socket_b [] one_ready =
     ([(To_socket socket_b, roleAssigned_failure msg_invalid_role)], one_ready)"
    by blast
  moreover
  from selectRole_checks_in_order [where r = jianguo and s = one_ready and sid = socket_b]
    fixed taken claimed reachable_one_ready
  have "selectRole socket_b jianguo one_ready =
        ([(To_socket socket_b, roleAssigned_success jianguo),
          (To_all, playersUpdate (map role (Map_values (players one_ready)) @ [jianguo]))],
         one_ready\<lparr>players := players one_ready
             @ [(jianguo, \<lparr>socketId = socket_b, role = jianguo\<rparr>)],
           socketToRole := socketToRole one_ready @ [(socket_b, jianguo)]\<rparr>)"
    and "map role (Map_values (players one_ready)) @ [jianguo]
       = Map_keys (players (snd (selectRole socket_b jianguo one_ready)))"
    by blast+
  then have "selectRole socket_b jianguo one_ready =
     ([(To_socket socket_b, roleAssigned_success jianguo),
       (To_all, playersUpdate [jianguang, jianguo])], two_players)"
    and "Map_keys (players (snd (selectRole socket_b jianguo one_ready))) = [jianguang, jianguo]"
    by (simp_all add: one_ready_def two_players_def Map_values_def)
  ultimately show ?thesis by simp
qed

text \<open>
  Claim C4 as stated does not hold: a socket that owns a role and asks for a name outside
  the fixed roles is answered with the invalid-role message, and one that asks for a taken
  role (its own, here) with the role-taken message; neither is the message of the third
  check.
\<close>

theorem second_claim_counterexample:
  "(To_socket socket_a, roleAssigned_success jianguang)
      \<in> set (fst (selectRole socket_a jianguang initial_state))
   \<and> fst (selectRole socket_a [] (snd (selectRole socket_a jianguang initial_state)))
       = [(To_socket socket_a, roleAssigned_failure msg_invalid_role)]
   \<and> fst (selectRole socket_a jianguang (snd (selectRole socket_a jianguang initial_state)))
       = [(To_socket socket_a, roleAssigned_failure msg_role_taken)]
   \<and> msg_invalid_role \<noteq> msg_already_selected
   \<and> msg_role_taken \<noteq> msg_already_selected"
  by (simp add: js_defs handler_defs example_defs Let_def msg_invalid_role_def msg_role_taken_def
      msg_already_selected_def)

text \<open>
  Claim C4, amended. After a successful \<open>selectRole\<close> of a socket, and any events that
  do not include that socket's disconnect, every further \<open>selectRole\<close> of the socket
  fails and changes nothing. The reply carries the message of the first failing check:
  invalid role for a name outside the fixed roles, role taken for a fixed role that is
  assigned, and the already-selected message exactly for a fixed role that is free.
\<close>

theorem second_claim_always_fails:
  assumes "(To_socket sid, roleAssigned_success r0) \<in> set (fst (selectRole sid r0 s0))"
    and "Disconnect sid \<notin> set evs"
    and "s = run evs g (snd (selectRole sid r0 s0))"
  shows "selectRole sid r s =
      ([(To_socket sid, roleAssigned_failure
           (if \<not> Array_includes FIXED_ROLES r then msg_invalid_role
            else if Map_has (players s) r then msg_role_taken else msg_already_selected))], s)
    \<and> (fst (selectRole sid r s) = [(To_socket sid, roleAssigned_failure msg_already_selected)]
         \<longleftrightarrow> Array_includes FIXED_ROLES r \<and> \<not> Map_has (players s) r)"
proof -
  from assms(1) have ok: "Array_includes FIXED_ROLES r0" "\<not> Map_has (players s0) r0"
      "\<not> Map_has (socketToRole s0) sid"
    by (simp_all add: selectRole_success_iff)
  have "Map_has (socketToRole (snd (selectRole sid r0 s0))) sid"
    by (simp add: selectRole_success [OF ok] Map_has_iff)
  then have "Map_has (socketToRole (run evs g (snd (selectRole sid r0 s0)))) sid"
    using assms(2) by (rule claimed_run)
  then have "Map_has (socketToRole s) sid" by (simp add: assms(3))
  then show ?thesis
    using messages_distinct by (simp add: selectRole_failure)
qed

theorem second_claim_always_fails_witness:
  "(To_socket socket_a, roleAssigned_success jianguang)
      \<in> set (fst (selectRole socket_a jianguang initial_state))
   \<and> Disconnect socket_a \<notin> set [SelectRole socket_b jianguo, Disconnect socket_b]
   \<and> run [SelectRole socket_b jianguo, Disconnect socket_b] rng_top
        (snd (selectRole socket_a jianguang initial_state))
      = one_ready\<lparr>readySet := []\<rparr>
   \<and> selectRole socket_a jianguo (one_ready\<lparr>readySet := []\<rparr>)
      = ([(To_socket socket_a, roleAssigned_failure msg_already_selected)],
         one_ready\<lparr>readySet := []\<rparr>)
   \<and> selectRole socket_a jianguang (one_ready\<lparr>readySet := []\<rparr>)
      = ([(To_socket socket_a, roleAssigned_failure msg_role_taken)],
         one_ready\<lparr>readySet := []\<rparr>)"
proof -
  have a: "(To_socket socket_a, roleAssigned_success jianguang)
      \<in> set (fst (selectRole socket_a jianguang initial_state))"
    by (simp add: js_defs handler_defs example_defs Let_def)
  have b: "Disconnect socket_a \<notin> set [SelectRole socket_b jianguo, Disconnect socket_b]"
    by (simp add: example_defs)
  have c: "one_ready\<lparr>readySet := []\<rparr>
      = run [SelectRole socket_b jianguo, Disconnect socket_b] rng_top
          (snd (selectRole socket_a jianguang initial_state))"
    by (simp add: js_defs handler_defs example_defs one_ready_def Let_def)
  have d: "Array_includes FIXED_ROLES jianguo" "Array_includes FIXED_ROLES jianguang"
      "\<not> Map_has (players (one_ready\<lparr>readySet := []\<rparr>)) jianguo"
      "Map_has (players (one_ready\<lparr>readySet := []\<rparr>)) jianguang"
    by (simp_all add: one_ready_def js_defs example_defs FIXED_ROLES_def)
  from second_claim_always_fails [OF a b c, of jianguo] d
  have "selectRole socket_a jianguo (one_ready\<lparr>readySet := []\<rparr>)
      = ([(To_socket socket_a, roleAssigned_failure msg_already_selected)],
         one_ready\<lparr>readySet := []\<rparr>)"
    by simp
  moreover from second_claim_always_fails [OF a b c, of jianguang] d
  have "selectRole socket_a jianguang (one_ready\<lparr>readySet := []\<rparr>)
      = ([(To_socket socket_a, roleAssigned_failure msg_role_taken)],
         one_ready\<lparr>readySet := []\<rparr>)"
    by simp
  ultimately show ?thesis using a b c by simp
qed

section \<open>The ready signal\<close>

text \<open>
  Claim C9. \<open>playerReady\<close> reports an error exactly when the role has no entry in
  \<open>players\<close> or the entry belongs to another socket. Then the single event is the
  \<open>errorMsg\<close> to the caller and the state and the randomness are untouched. Otherwise the
  first event is \<open>someoneReady\<close> with the role, sent to every socket but the caller, and
  the events after it are those of the barrier evaluation, none of which is a second
  \<open>someoneReady\<close>.
\<close>

theorem playerReady_owner_check:
  "(list_ex is_errorMsg (fst (playerReady sid r g s)) \<longleftrightarrow>
      Map_get (players s) r = None
      \<or> (\<exists>p. Map_get (players s) r = Some p \<and> socketId p \<noteq> sid))
   \<and> (list_ex is_errorMsg (fst (playerReady sid r g s)) \<longrightarrow>
        playerReady sid r g s = ([(To_socket sid, errorMsg msg_not_owner)], s, g))
   \<and> (\<not> list_ex is_errorMsg (fst (playerReady sid r g s)) \<longrightarrow>
        fst (playerReady sid r g s) =
          (To_all_except sid, someoneReady r)
            # fst (tryStartRoll g (s\<lparr>readySet := Set_add r (readySet s)\<rparr>))
        \<and> \<not> list_ex (\<lambda>x. snd x = someoneReady r)
              (fst (tryStartRoll g (s\<lparr>readySet := Set_add r (readySet s)\<rparr>))))"
proof (cases "Map_get (players s) r = None \<or> (\<exists>p. Map_get (players s) r = Some p \<and> socketId p \<noteq> sid)")
  case True
  then show ?thesis by (simp add: playerReady_fail is_errorMsg_def)
next
  case False
  then obtain p where p: "Map_get (players s) r = Some p" "socketId p = sid" by auto
  with False show ?thesis
    by (simp add: playerReady_ok [OF p] is_errorMsg_def tryStartRoll_out)
qed

theorem playerReady_owner_check_witness:
  "playerReady socket_b jianguang rng_top two_players =
     ([(To_socket socket_b, errorMsg msg_not_owner)], two_players, rng_top)
   \<and> fst (playerReady socket_a jianguang rng_top two_players) =
       [(To_all_except socket_a, someoneReady jianguang)]"
  using playerReady_owner_check [of socket_b jianguang rng_top two_players]
    playerReady_owner_check [of socket_a jianguang rng_top two_players]
  by (simp add: two_players_def js_defs example_defs tryStartRoll_out allReady_def)

text \<open>
  Claim C8 as stated does not hold. After two sockets took a role each, the first
  signalled ready and the second disconnected, the first role is in \<open>readySet\<close> and owned
  by its socket; a second ready signal for it emits \<open>someoneReady\<close> again, starts a round
  and empties \<open>readySet\<close>. With that role alone online, the next signal starts a round
  once more.
\<close>

theorem repeated_ready_counterexample:
  "run [SelectRole socket_a jianguang, SelectRole socket_b jianguo,
        PlayerReady socket_a jianguang, Disconnect socket_b] rng_top initial_state = one_ready
   \<and> Set_has (readySet one_ready) jianguang
   \<and> Map_get (players one_ready) jianguang = Some \<lparr>socketId = socket_a, role = jianguang\<rparr>
   \<and> playerReady socket_a jianguang rng_top one_ready =
       ([(To_all_except socket_a, someoneReady jianguang),
         (To_all, startRoll [(jianguang, [6, 6, 6, 6, 6])])],
        one_ready\<lparr>readySet := []\<rparr>, rng_top)
   \<and> one_ready\<lparr>readySet := []\<rparr> \<noteq> one_ready
   \<and> playerReady socket_a jianguang rng_top (one_ready\<lparr>readySet := []\<rparr>) =
       ([(To_all_except socket_a, someoneReady jianguang),
         (To_all, startRoll [(jianguang, [6, 6, 6, 6, 6])])],
        one_ready\<lparr>readySet := []\<rparr>, rng_top)"
proof -
  have "playerReady socket_a jianguang rng_top one_ready =
       ([(To_all_except socket_a, someoneReady jianguang),
         (To_all, startRoll [(jianguang, [6, 6, 6, 6, 6])])],
        one_ready\<lparr>readySet := []\<rparr>, rng_top)"
    by (simp add: playerReady_def tryStartRoll_def allReady_def one_ready_def js_defs dice_rng_top)
  moreover have "playerReady socket_a jianguang rng_top (one_ready\<lparr>readySet := []\<rparr>) =
       ([(To_all_except socket_a, someoneReady jianguang),
         (To_all, startRoll [(jianguang, [6, 6, 6, 6, 6])])],
        one_ready\<lparr>readySet := []\<rparr>, rng_top)"
    by (simp add: playerReady_def tryStartRoll_def allReady_def one_ready_def js_defs dice_rng_top)
  moreover have "one_ready\<lparr>readySet := []\<rparr> \<noteq> one_ready"
    by (simp add: one_ready_def)
  moreover have "Set_has (readySet one_ready) jianguang"
    and "Map_get (players one_ready) jianguang = Some \<lparr>socketId = socket_a, role = jianguang\<rparr>"
    by (simp_all add: one_ready_def js_defs)
  ultimately show ?thesis using run_one_ready by simp
qed

text \<open>
  Claim C8, amended. A ready signal of the owner for a role that is already in
  \<open>readySet\<close> is the \<open>someoneReady\<close> notice followed by the barrier evaluation on the
  unchanged state: \<open>players\<close> and \<open>socketToRole\<close> stay as they are and no error is
  reported; if every online role is ready a round starts and \<open>readySet\<close> is emptied,
  otherwise the notice is the only event and the state is unchanged. When the role is the
  only one online, every ready signal of its owner starts a round.
\<close>

theorem repeated_ready_signal:
  assumes "Map_get (players s) r = Some p" and "socketId p = sid"
  shows "(Set_has (readySet s) r \<longrightarrow>
      playerReady sid r g s =
        ((To_all_except sid, someoneReady r) # fst (tryStartRoll g s), snd (tryStartRoll g s))
      \<and> players (fst (snd (playerReady sid r g s))) = players s
      \<and> socketToRole (fst (snd (playerReady sid r g s))) = socketToRole s
      \<and> \<not> list_ex is_errorMsg (fst (playerReady sid r g s))
      \<and> (set (Map_keys (players s)) \<subseteq> set (readySet s) \<longrightarrow>
           round_started (fst (playerReady sid r g s))
           \<and> readySet (fst (snd (playerReady sid r g s))) = [])
      \<and> (\<not> set (Map_keys (players s)) \<subseteq> set (readySet s) \<longrightarrow>
           playerReady sid r g s = ([(To_all_except sid, someoneReady r)], s, g)))
    \<and> (Map_keys (players s) = [r] \<longrightarrow>
         round_started (fst (playerReady sid r g s))
         \<and> fst (snd (playerReady sid r g s)) = s\<lparr>readySet := []\<rparr>)"
proof (intro conjI impI)
  assume sole: "Map_keys (players s) = [r]"
  then have "allReady (s\<lparr>readySet := Set_add r (readySet s)\<rparr>)"
    by (simp add: allReady_iff Set_add_def)
  then show "round_started (fst (playerReady sid r g s))"
    and "fst (snd (playerReady sid r g s)) = s\<lparr>readySet := []\<rparr>"
    by (simp_all add: playerReady_ok [OF assms] tryStartRoll_state tryStartRoll_out
        round_started_def is_startRoll_def)
next
  assume "Set_has (readySet s) r"
  then have "s\<lparr>readySet := Set_add r (readySet s)\<rparr> = s"
    by (simp add: Set_add_def Set_has_def)
  then have eq: "playerReady sid r g s =
      ((To_all_except sid, someoneReady r) # fst (tryStartRoll g s), snd (tryStartRoll g s))"
    by (simp add: playerReady_ok [OF assms])
  from assms(1) have "r \<in> set (Map_keys (players s))"
    by (auto simp: Map_get_def Map_keys_def dest: map_of_SomeD intro: rev_image_eqI)
  then have ready: "allReady s \<longleftrightarrow> set (Map_keys (players s)) \<subseteq> set (readySet s)"
    by (auto simp: allReady_iff)
  show "playerReady sid r g s =
      ((To_all_except sid, someoneReady r) # fst (tryStartRoll g s), snd (tryStartRoll g s))"
    by (rule eq)
  show "players (fst (snd (playerReady sid r g s))) = players s"
    and "socketToRole (fst (snd (playerReady sid r g s))) = socketToRole s"
    and "\<not> list_ex is_errorMsg (fst (playerReady sid r g s))"
    unfolding eq by (simp_all add: tryStartRoll_state tryStartRoll_out is_errorMsg_def)
  show "round_started (fst (playerReady sid r g s))"
    and "readySet (fst (snd (playerReady sid r g s))) = []"
    if "set (Map_keys (players s)) \<subseteq> set (readySet s)"
    unfolding eq using that
    by (simp_all add: tryStartRoll_state tryStartRoll_out ready round_started_def
        is_startRoll_def)
  show "playerReady sid r g s = ([(To_all_except sid, someoneReady r)], s, g)"
    if "\<not> set (Map_keys (players s)) \<subseteq> set (readySet s)"
    unfolding eq using that by (simp add: tryStartRoll_not_ready ready)
qed

theorem repeated_ready_signal_witness:
  "Map_get (players two_players) jianguang = Some \<lparr>socketId = socket_a, role = jianguang\<rparr>
   \<and> Set_has (readySet two_players) jianguang
   \<and> playerReady socket_a jianguang rng_top two_players =
       ([(To_all_except socket_a, someoneReady jianguang)], two_players, rng_top)
   \<and> Set_has (readySet one_ready) jianguang
   \<and> round_started (fst (playerReady socket_a jianguang rng_top one_ready))
   \<and> readySet (fst (snd (playerReady socket_a jianguang rng_top one_ready))) = []"
proof -
  have a: "Map_get (players two_players) jianguang = Some \<lparr>socketId = socket_a, role = jianguang\<rparr>"
    and b: "Set_has (readySet two_players) jianguang"
    and c: "\<not> set (Map_keys (players two_players)) \<subseteq> set (readySet two_players)"
    by (simp_all add: two_players_def js_defs example_defs)
  have a': "Map_get (players one_ready) jianguang = Some \<lparr>socketId = socket_a, role = jianguang\<rparr>"
    and b': "Set_has (readySet one_ready) jianguang"
    and c': "set (Map_keys (players one_ready)) \<subseteq> set (readySet one_ready)"
    by (simp_all add: one_ready_def js_defs)
  have d: "socketId \<lparr>socketId = socket_a, role = jianguang\<rparr> = socket_a" by simp
  from repeated_ready_signal [OF a d, of rng_top] b c
  have "playerReady socket_a jianguang rng_top two_players =
       ([(To_all_except socket_a, someoneReady jianguang)], two_players, rng_top)"
    by blast
  moreover from repeated_ready_signal [OF a' d, of rng_top] b' c'
  have "round_started (fst (playerReady socket_a jianguang rng_top one_ready))
   \<and> readySet (fst (snd (playerReady socket_a jianguang rng_top one_ready))) = []"
    by blast
  ultimately show ?thesis using a b b' by simp
qed

section \<open>Disconnecting\<close>

text \<open>
  Claim C6. \<open>disconnect\<close> never emits \<open>startRoll\<close>. In a reachable state, for a socket
  that holds a role, it removes the role from \<open>players\<close>, the socket from
  \<open>socketToRole\<close> and the role from \<open>readySet\<close>, leaving the other ready roles in place,
  and its only event is the broadcast of the remaining roster. This is so even when the
  remaining ready roles are then all the online roles.
\<close>

theorem disconnect_never_starts_round:
  "\<not> round_started (fst (disconnect sid s))
   \<and> (reachable s \<and> Map_get (socketToRole s) sid = Some r \<longrightarrow>
        disconnect sid s =
          ([(To_all, playersUpdate (Map_keys (Map_delete r (players s))))],
           s\<lparr>players := Map_delete r (players s),
             socketToRole := Map_delete sid (socketToRole s),
             readySet := Set_delete r (readySet s)\<rparr>)
        \<and> Map_get (players (snd (disconnect sid s))) r = None
        \<and> Map_get (socketToRole (snd (disconnect sid s))) sid = None
        \<and> set (readySet (snd (disconnect sid s))) = set (readySet s) - {r})"
proof -
  have no_round: "\<not> round_started (fst (disconnect sid s))"
    using disconnect_cases [of sid s] by (auto simp: round_started_def is_startRoll_def)
  have owner: "disconnect sid s =
          ([(To_all, playersUpdate (Map_keys (Map_delete r (players s))))],
           s\<lparr>players := Map_delete r (players s),
             socketToRole := Map_delete sid (socketToRole s),
             readySet := Set_delete r (readySet s)\<rparr>)
        \<and> Map_get (players (snd (disconnect sid s))) r = None
        \<and> Map_get (socketToRole (snd (disconnect sid s))) sid = None
        \<and> set (readySet (snd (disconnect sid s))) = set (readySet s) - {r}"
    if reach: "reachable s" and own: "Map_get (socketToRole s) sid = Some r"
  proof -
    from reach have wf: "wf_state s" by (rule reachable_wf_state)
    from wf own have ne: "r \<noteq> []" by (rule wf_state_role_nonempty)
    have "wf_state (s\<lparr>players := Map_delete r (players s),
             socketToRole := Map_delete sid (socketToRole s),
             readySet := Set_delete r (readySet s)\<rparr>)"
      using wf by (rule wf_state_delete)
    from wf_state_roster [OF this]
    have roster: "map role (Map_values (Map_delete r (players s))) = Map_keys (Map_delete r (players s))"
      by simp
    show ?thesis
      by (simp add: disconnect_owner [OF own ne] roster)
        (simp add: Map_get_def Map_delete_def Set_delete_def delete_conv')
  qed
  from no_round owner show ?thesis by blast
qed

theorem disconnect_never_starts_round_witness:
  "reachable two_players
   \<and> Map_get (socketToRole two_players) socket_b = Some jianguo
   \<and> disconnect socket_b two_players = ([(To_all, playersUpdate [jianguang])], one_ready)
   \<and> allReady one_ready
   \<and> \<not> round_started (fst (disconnect socket_b two_players))
   \<and> readySet (snd (disconnect socket_b two_players)) = [jianguang]"
proof -
  have own: "Map_get (socketToRole two_players) socket_b = Some jianguo"
    by (simp add: two_players_def js_defs example_defs)
  have ready: "allReady one_ready"
    by (simp add: allReady_def one_ready_def js_defs)
  from disconnect_never_starts_round [of socket_b two_players jianguo] reachable_two_players own
  have "disconnect socket_b two_players =
          ([(To_all, playersUpdate (Map_keys (Map_delete jianguo (players two_players))))],
           two_players\<lparr>players := Map_delete jianguo (players two_players),
             socketToRole := Map_delete socket_b (socketToRole two_players),
             readySet := Set_delete jianguo (readySet two_players)\<rparr>)"
    and nr: "\<not> round_started (fst (disconnect socket_b two_players))"
    by blast+
  then have "disconnect socket_b two_players = ([(To_all, playersUpdate [jianguang])], one_ready)"
    by (simp add: two_players_def one_ready_def js_defs example_defs)
  with own ready nr reachable_two_players show ?thesis
    by (simp add: one_ready_def)
qed

end
